theory Spec2Isabelle
  imports Main "HOL-Library.AList"
begin

section \<open>Python values used by graph\_tools.py\<close>

text \<open>
  The exceptions the operations of \<^verbatim>\<open>graph_tools.py\<close> can raise. Every
  function of the model that can raise returns a value of \<open>error + 'a\<close>, with
  \<open>Inl\<close> for the exception.
\<close>

datatype error =
  KeyError | IndexError | AttributeError | TypeError | ValueError | RuntimeError | OverflowError

definition bnd :: "error + 'a \<Rightarrow> ('a \<Rightarrow> error + 'b) \<Rightarrow> error + 'b" where
  "bnd r f = (case r of Inl e \<Rightarrow> Inl e | Inr x \<Rightarrow> f x)"

text \<open>
  A neighbourhood container. The class \<^verbatim>\<open>graph\<close> stores in \<^verbatim>\<open>adj_list[v]\<close> a
  \<^verbatim>\<open>dict\<close> from neighbour to edge label (lines 75-76); \<^verbatim>\<open>Degeneracy\<close> stores in
  the same attribute of its output a \<^verbatim>\<open>set\<close> of neighbours (line 192). A Python
  \<^verbatim>\<open>dict\<close> keeps insertion order, so it is an association list; a Python
  \<^verbatim>\<open>set\<close> has no specified order, so it is a HOL set.
\<close>

datatype ('v, 'l) container = PyDict "('v \<times> 'l) list" | PySet "'v set"

text \<open>\<^verbatim>\<open>d[k]\<close> on a dict: \<^verbatim>\<open>KeyError\<close> when the key is missing.\<close>

definition dict_get :: "('k \<times> 'a) list \<Rightarrow> 'k \<Rightarrow> error + 'a" where
  "dict_get d k = (case map_of d k of None \<Rightarrow> Inl KeyError | Some x \<Rightarrow> Inr x)"

text \<open>\<^verbatim>\<open>x in c\<close> for a dict (membership among the keys) or a set.\<close>

definition py_in :: "'v \<Rightarrow> ('v, 'l) container \<Rightarrow> bool" where
  "py_in x c = (case c of PyDict d \<Rightarrow> x \<in> fst ` set d | PySet s \<Rightarrow> x \<in> s)"

text \<open>\<^verbatim>\<open>len(c)\<close>: the number of keys of a dict, the number of elements of a set.\<close>

definition py_len :: "('v, 'l) container \<Rightarrow> nat" where
  "py_len c = (case c of PyDict d \<Rightarrow> length (remdups (map fst d)) | PySet s \<Rightarrow> card s)"

text \<open>
  \<^verbatim>\<open>c[k] = v\<close>: on a dict the key is overwritten in place or appended; a set does not
  support item assignment (\<^verbatim>\<open>TypeError\<close>).
\<close>

definition py_setitem :: "('v, 'l) container \<Rightarrow> 'v \<Rightarrow> 'l \<Rightarrow> error + ('v, 'l) container" where
  "py_setitem c k v =
     (case c of PyDict d \<Rightarrow> Inr (PyDict (AList.update k v d)) | PySet s \<Rightarrow> Inl TypeError)"

section \<open>The class graph\<close>

text \<open>The three attributes set by \<^verbatim>\<open>graph.__init__\<close> (lines 31-34).\<close>

record ('v, 'l) graph =
  adj_list :: "('v \<times> ('v, 'l) container) list"
  vertices :: "'v set"
  degrees :: "('v \<times> int) list"

definition graph_init :: "('v, 'l) graph" where
  "graph_init = \<lparr>adj_list = [], vertices = {}, degrees = []\<rparr>"

text \<open>\<^verbatim>\<open>isNode\<close> (lines 37-44).\<close>

definition isNode :: "('v, 'l) graph \<Rightarrow> 'v \<Rightarrow> bool" where
  "isNode g node = (if node \<in> vertices g then True else False)"

text \<open>
  \<^verbatim>\<open>isEdge\<close> (lines 49-58): the result is the integer 1 or 0; the lookup
  \<^verbatim>\<open>self.adj_list[node]\<close> raises \<^verbatim>\<open>KeyError\<close> on a missing key.
\<close>

definition isEdge :: "('v, 'l) graph \<Rightarrow> 'v \<Rightarrow> 'v \<Rightarrow> error + int" where
  "isEdge g node1 node2 =
     bnd (if node1 \<in> vertices g
          then bnd (dict_get (adj_list g) node1) (\<lambda>nbrs. Inr (py_in node2 nbrs))
          else Inr False)
       (\<lambda>found1. if found1 then Inr 1
          else bnd (if node2 \<in> vertices g
                    then bnd (dict_get (adj_list g) node2) (\<lambda>nbrs. Inr (py_in node1 nbrs))
                    else Inr False)
                 (\<lambda>found2. if found2 then Inr 1 else Inr 0))"

text \<open>
  One endpoint block of \<^verbatim>\<open>Add_und_edge\<close>: lines 67-77 with \<open>a = node1\<close>,
  \<open>b = node2\<close>, and lines 79-89, the same text with the two nodes exchanged.
  \<^verbatim>\<open>nbrs[b] = value\<close> mutates the dict stored in \<^verbatim>\<open>self.adj_list[a]\<close> in place.
\<close>

definition add_endpoint :: "('v, 'l) graph \<Rightarrow> 'v \<Rightarrow> 'v \<Rightarrow> 'l \<Rightarrow> error + ('v, 'l) graph" where
  "add_endpoint g a b val =
     (if a \<in> vertices g then
        bnd (dict_get (adj_list g) a) (\<lambda>nbrs.
          if \<not> py_in b nbrs then
            bnd (py_setitem nbrs b val) (\<lambda>nbrs'.
              let g1 = g\<lparr>adj_list := AList.update a nbrs' (adj_list g)\<rparr> in
              bnd (dict_get (degrees g1) a) (\<lambda>d.
                Inr (g1\<lparr>degrees := AList.update a (d + 1) (degrees g1)\<rparr>)))
          else Inr g)
      else
        Inr (g\<lparr>vertices := insert a (vertices g),
               adj_list := AList.update a (PyDict [(b, val)]) (adj_list g),
               degrees := AList.update a 1 (degrees g)\<rparr>))"

text \<open>\<^verbatim>\<open>Add_und_edge\<close> (lines 64-89).\<close>

definition Add_und_edge :: "('v, 'l) graph \<Rightarrow> 'v \<Rightarrow> 'v \<Rightarrow> 'l \<Rightarrow> error + ('v, 'l) graph" where
  "Add_und_edge g node1 node2 val =
     (if node1 = node2 then Inr g
      else bnd (add_endpoint g node1 node2 val) (\<lambda>g'. add_endpoint g' node2 node1 val))"

text \<open>
  A sequence of \<^verbatim>\<open>Add_und_edge\<close> calls on one graph object, first call first; an
  exception ends the sequence.
\<close>

fun add_edges :: "('v, 'l) graph \<Rightarrow> ('v \<times> 'v \<times> 'l) list \<Rightarrow> error + ('v, 'l) graph" where
  "add_edges g [] = Inr g"
| "add_edges g ((u, v, l) # es) = bnd (Add_und_edge g u v l) (\<lambda>g'. add_edges g' es)"


section \<open>Unordered sets\<close>

text \<open>
  Python does not specify the order in which a \<^verbatim>\<open>set\<close> is iterated, nor which
  element \<^verbatim>\<open>set.pop()\<close> removes. The model takes both as a parameter: every
  function that iterates over a set or pops from one receives the order, and the
  theorems hold for every order that enumerates each finite set once and pops a
  member of each non-empty set.
\<close>

record 'v set_order =
  iter_order :: "'v set \<Rightarrow> 'v list"
  pop_choice :: "'v set \<Rightarrow> 'v"

definition order_ok :: "'v set_order \<Rightarrow> bool" where
  "order_ok sch \<longleftrightarrow>
     (\<forall>S. finite S \<longrightarrow> set (iter_order sch S) = S \<and> distinct (iter_order sch S)) \<and>
     (\<forall>S. finite S \<longrightarrow> S \<noteq> {} \<longrightarrow> pop_choice sch S \<in> S)"

text \<open>The order used for concrete runs: ascending, popping the least element.\<close>

definition ascending :: "('v :: linorder) set_order" where
  "ascending = \<lparr>iter_order = sorted_list_of_set, pop_choice = Min\<rparr>"

section \<open>Size\<close>

text \<open>
  \<^verbatim>\<open>Size\<close> (lines 136-145) returns \<^verbatim>\<open>[n, m, wedge]\<close>. \<open>n\<close> and \<open>m\<close> are Python
  ints (unbounded). Line 144 is \<^verbatim>\<open>wedge = wedge+deg*(deg-1)/2\<close>: in Python 3 (the
  file opens with \<^verbatim>\<open>open(fname, 'r', encoding='utf-8')\<close>, line 116, which Python 2
  rejects) \<^verbatim>\<open>/\<close> is true division and returns a \<^verbatim>\<open>float\<close>, an IEEE 754
  binary64 number, so from the first iteration on \<^verbatim>\<open>wedge\<close> is a float.

  \<open>deg * (deg - 1)\<close> is even and non-negative for every integer \<open>deg\<close>, so the exact
  quotient is a natural number, and so is every sum of such quotients: the only
  floats that arise are non-negative and integer-valued (or infinite). \<open>Finite k\<close>
  is the float whose value is \<open>k\<close>.
\<close>

datatype pyfloat = Finite nat | Infinity

datatype pynum = PyInt int | PyFloat pyfloat

text \<open>The number of binary digits of \<open>k\<close>.\<close>

fun bitlen :: "nat \<Rightarrow> nat" where
  "bitlen k = (if k = 0 then 0 else Suc (bitlen (k div 2)))"

declare bitlen.simps [simp del]

text \<open>
  Rounding of a natural number to the nearest number with a 53-bit significand,
  ties to the even significand (the rounding of binary64, before the exponent
  range is looked at).
\<close>

definition round53 :: "nat \<Rightarrow> nat" where
  "round53 k =
     (let e = bitlen k - 53; q = k div 2 ^ e; r = k mod 2 ^ e in
      if 2 * r < 2 ^ e then q * 2 ^ e
      else if 2 ^ e < 2 * r then (q + 1) * 2 ^ e
      else (if even q then q else q + 1) * 2 ^ e)"

text \<open>A rounded value of \<open>2 ^ 1024\<close> or more is beyond the largest binary64 number.\<close>

definition float_overflow :: "nat \<Rightarrow> bool" where
  "float_overflow r \<longleftrightarrow> 2 ^ 1024 \<le> r"

text \<open>
  \<^verbatim>\<open>a / 2\<close> for a Python int \<open>a\<close> that is even and non-negative: the correctly
  rounded quotient, or \<^verbatim>\<open>OverflowError\<close> (integer division result too large for a
  float).
\<close>

definition truediv2 :: "int \<Rightarrow> error + pyfloat" where
  "truediv2 a =
     (let r = round53 (nat (a div 2)) in
      if float_overflow r then Inl OverflowError else Inr (Finite r))"

text \<open>Float addition: the rounded exact sum, infinite on overflow.\<close>

fun float_add :: "pyfloat \<Rightarrow> pyfloat \<Rightarrow> pyfloat" where
  "float_add (Finite a) (Finite b) =
     (let r = round53 (a + b) in if float_overflow r then Infinity else Finite r)"
| "float_add _ _ = Infinity"

text \<open>
  \<^verbatim>\<open>wedge + x\<close> for a float \<open>x\<close>: an int \<^verbatim>\<open>wedge\<close> (only its initial value 0 is
  one) is converted to float first.
\<close>

definition add_float :: "pynum \<Rightarrow> pyfloat \<Rightarrow> pynum" where
  "add_float w x =
     (case w of PyInt i \<Rightarrow> PyFloat (float_add (Finite (round53 (nat i))) x)
              | PyFloat f \<Rightarrow> PyFloat (float_add f x))"

text \<open>The loop of lines 141-144 over the nodes in iteration order.\<close>

fun Size_loop :: "('v, 'l) graph \<Rightarrow> 'v list \<Rightarrow> int \<times> pynum \<Rightarrow> error + (int \<times> pynum)" where
  "Size_loop g [] (m, wedge) = Inr (m, wedge)"
| "Size_loop g (node # rest) (m, wedge) =
     bnd (dict_get (degrees g) node) (\<lambda>deg.
       bnd (truediv2 (deg * (deg - 1))) (\<lambda>q.
         Size_loop g rest (m + deg, add_float wedge q)))"

definition Size :: "'v set_order \<Rightarrow> ('v, 'l) graph \<Rightarrow> error + pynum list" where
  "Size sch g =
     (let n = int (card (vertices g)) in
      bnd (Size_loop g (iter_order sch (vertices g)) (0, PyInt 0)) (\<lambda>(m, wedge).
        Inr [PyInt n, PyInt m, wedge]))"

section \<open>Deg\_dist\<close>

text \<open>
  \<^verbatim>\<open>numpy.bincount\<close>, a library function, as numpy documents it: the input holds
  non-negative ints (\<^verbatim>\<open>ValueError\<close> otherwise), the result has one more entry than
  the largest input, entry \<open>i\<close> counting the occurrences of \<open>i\<close>; an empty input
  gives an empty result.
\<close>

definition bincount :: "int list \<Rightarrow> error + nat list" where
  "bincount xs =
     (if \<exists>x \<in> set xs. x < 0 then Inl ValueError
      else if xs = [] then Inr []
      else Inr (map (\<lambda>i. count_list xs (int i)) [0 ..< nat (Max (set xs)) + 1]))"

text \<open>
  \<^verbatim>\<open>Deg_dist\<close> (lines 167-175) called with the default \<^verbatim>\<open>fname=''\<close>, so that the
  branch writing a file is not taken.
\<close>

definition Deg_dist :: "('v, 'l) graph \<Rightarrow> error + nat list" where
  "Deg_dist g = (let degs = map snd (degrees g) in bincount degs)"

section \<open>Objects, the class DAG and its class attribute\<close>

text \<open>
  \<^verbatim>\<open>class DAG(graph)\<close> (lines 244-248) adds no instance attribute:
  \<^verbatim>\<open>DAG.__init__\<close> runs \<^verbatim>\<open>graph.__init__\<close> and then assigns \<^verbatim>\<open>DAG.top_order = []\<close>,
  an attribute of the class. The store holds the instances by identity, the
  next unused identity, and the value of the class attribute \<^verbatim>\<open>DAG.top_order\<close>.
\<close>

datatype cls = graph_cls | DAG_cls

record ('v, 'l) store =
  objects :: "nat \<Rightarrow> cls \<times> ('v, 'l) graph"
  next_id :: nat
  DAG_top_order :: "'v list"

text \<open>\<^verbatim>\<open>graph()\<close>: a new instance of the class graph.\<close>

definition graph_new :: "('v, 'l) store \<Rightarrow> nat \<times> ('v, 'l) store" where
  "graph_new st =
     (next_id st,
      st\<lparr>objects := (objects st)(next_id st := (graph_cls, graph_init)),
         next_id := Suc (next_id st)\<rparr>)"

text \<open>\<^verbatim>\<open>DAG()\<close> (lines 246-248): a new instance, and the class attribute is rebound.\<close>

definition DAG_init :: "('v, 'l) store \<Rightarrow> nat \<times> ('v, 'l) store" where
  "DAG_init st =
     (next_id st,
      st\<lparr>objects := (objects st)(next_id st := (DAG_cls, graph_init)),
         next_id := Suc (next_id st),
         DAG_top_order := []\<rparr>)"

text \<open>
  \<^verbatim>\<open>x.top_order\<close> read through an instance: no instance has an attribute of that
  name, so the lookup falls through to the class; the class graph has none.
\<close>

definition top_order_of :: "('v, 'l) store \<Rightarrow> nat \<Rightarrow> error + 'v list" where
  "top_order_of st x =
     (if fst (objects st x) = DAG_cls then Inr (DAG_top_order st) else Inl AttributeError)"

text \<open>\<^verbatim>\<open>x.top_order.append(v)\<close> (as in line 216): the list found by that lookup grows.\<close>

definition top_order_append :: "('v, 'l) store \<Rightarrow> nat \<Rightarrow> 'v \<Rightarrow> error + ('v, 'l) store" where
  "top_order_append st x v =
     bnd (top_order_of st x) (\<lambda>l. Inr (st\<lparr>DAG_top_order := l @ [v]\<rparr>))"

text \<open>\<^verbatim>\<open>copy.deepcopy(x)\<close>: a new instance of the same class with equal contents.\<close>

definition deepcopy :: "('v, 'l) store \<Rightarrow> nat \<Rightarrow> nat \<times> ('v, 'l) store" where
  "deepcopy st x =
     (next_id st,
      st\<lparr>objects := (objects st)(next_id st := objects st x),
         next_id := Suc (next_id st)\<rparr>)"

section \<open>Degeneracy\<close>

subsection \<open>Lists of buckets and containers\<close>

text \<open>
  Python list indexing: a negative index counts from the end, an index out of
  range raises \<^verbatim>\<open>IndexError\<close>.
\<close>

definition py_index :: "nat \<Rightarrow> int \<Rightarrow> error + nat" where
  "py_index n i =
     (if 0 \<le> i \<and> i < int n then Inr (nat i)
      else if - int n \<le> i \<and> i < 0 then Inr (nat (int n + i))
      else Inl IndexError)"

text \<open>\<^verbatim>\<open>deg_list[i].add(x)\<close>.\<close>

definition bucket_add :: "'v set list \<Rightarrow> int \<Rightarrow> 'v \<Rightarrow> error + 'v set list" where
  "bucket_add dl i x = bnd (py_index (length dl) i) (\<lambda>j. Inr (dl[j := insert x (dl ! j)]))"

text \<open>\<^verbatim>\<open>deg_list[i].remove(x)\<close>: \<^verbatim>\<open>KeyError\<close> when \<open>x\<close> is not in the set.\<close>

definition bucket_remove :: "'v set list \<Rightarrow> int \<Rightarrow> 'v \<Rightarrow> error + 'v set list" where
  "bucket_remove dl i x =
     bnd (py_index (length dl) i) (\<lambda>j.
       if x \<in> dl ! j then Inr (dl[j := dl ! j - {x}]) else Inl KeyError)"

text \<open>\<^verbatim>\<open>deg_list[i].pop()\<close>: \<^verbatim>\<open>KeyError\<close> on an empty set.\<close>

definition bucket_pop :: "'v set_order \<Rightarrow> 'v set list \<Rightarrow> int \<Rightarrow> error + ('v \<times> 'v set list)" where
  "bucket_pop sch dl i =
     bnd (py_index (length dl) i) (\<lambda>j.
       if dl ! j = {} then Inl KeyError
       else let x = pop_choice sch (dl ! j) in Inr (x, dl[j := dl ! j - {x}]))"

text \<open>
  \<^verbatim>\<open>c.remove(x)\<close>: a \<^verbatim>\<open>set\<close> method (\<^verbatim>\<open>KeyError\<close> when \<open>x\<close> is missing); a
  \<^verbatim>\<open>dict\<close> has no attribute \<^verbatim>\<open>remove\<close>.
\<close>

definition py_remove :: "('v, 'l) container \<Rightarrow> 'v \<Rightarrow> error + ('v, 'l) container" where
  "py_remove c x =
     (case c of PyDict d \<Rightarrow> Inl AttributeError
              | PySet s \<Rightarrow> if x \<in> s then Inr (PySet (s - {x})) else Inl KeyError)"

text \<open>\<^verbatim>\<open>c.add(x)\<close>: a \<^verbatim>\<open>set\<close> method; a \<^verbatim>\<open>dict\<close> has no attribute \<^verbatim>\<open>add\<close>.\<close>

definition py_add :: "('v, 'l) container \<Rightarrow> 'v \<Rightarrow> error + ('v, 'l) container" where
  "py_add c x = (case c of PyDict d \<Rightarrow> Inl AttributeError | PySet s \<Rightarrow> Inr (PySet (insert x s)))"

text \<open>\<^verbatim>\<open>for node in c\<close>: the keys of a dict in insertion order, a set in its order.\<close>

definition py_iter :: "'v set_order \<Rightarrow> ('v, 'l) container \<Rightarrow> 'v list" where
  "py_iter sch c = (case c of PyDict d \<Rightarrow> map fst d | PySet s \<Rightarrow> iter_order sch s)"

subsection \<open>The state of one call\<close>

text \<open>
  The objects and variables \<^verbatim>\<open>Degeneracy\<close> writes to: the working copy \<^verbatim>\<open>G\<close>, the
  output \<^verbatim>\<open>core_G\<close>, the local variables \<^verbatim>\<open>deg_list\<close> and \<^verbatim>\<open>min_deg\<close>, and the
  class attribute \<^verbatim>\<open>DAG.top_order\<close>. \<^verbatim>\<open>G\<close> and \<^verbatim>\<open>core_G\<close> are new objects that
  only this call refers to, so they are handled by value during the call. A
  step returns \<open>(None, s')\<close> when it completes and \<open>(Some e, s')\<close> when it raises
  \<open>e\<close> in state \<open>s'\<close>.
\<close>

record ('v, 'l) dstate =
  G :: "('v, 'l) graph"
  core_G :: "('v, 'l) graph"
  deg_list :: "'v set list"
  min_deg :: int
  top_order :: "'v list"

definition attempt :: "error + 'a \<Rightarrow> 's \<Rightarrow> ('a \<Rightarrow> error option \<times> 's) \<Rightarrow> error option \<times> 's" where
  "attempt r s k = (case r of Inl e \<Rightarrow> (Some e, s) | Inr x \<Rightarrow> k x)"

subsection \<open>The loops\<close>

text \<open>Lines 191-193, over \<^verbatim>\<open>core_G.vertices\<close> in iteration order.\<close>

definition init_node :: "'v \<Rightarrow> ('v, 'l) graph \<Rightarrow> ('v, 'l) graph" where
  "init_node node c =
     c\<lparr>adj_list := AList.update node (PySet {}) (adj_list c),
       degrees := AList.update node 0 (degrees c)\<rparr>"

text \<open>Lines 199-203, over \<^verbatim>\<open>G.vertices\<close> in iteration order.\<close>

fun fill_buckets ::
  "('v, 'l) graph \<Rightarrow> 'v list \<Rightarrow> 'v set list \<times> int \<Rightarrow> error + ('v set list \<times> int)" where
  "fill_buckets g [] (dl, md) = Inr (dl, md)"
| "fill_buckets g (node # rest) (dl, md) =
     bnd (dict_get (degrees g) node) (\<lambda>deg.
       bnd (bucket_add dl deg node) (\<lambda>dl'.
         fill_buckets g rest (dl', if deg < md then deg else md)))"

text \<open>
  Lines 212-213: \<^verbatim>\<open>while len(deg_list[min_deg]) == 0: min_deg = min_deg+1\<close>. The
  loop ends with \<^verbatim>\<open>IndexError\<close> at the latest when \<^verbatim>\<open>min_deg\<close> reaches the length
  of the list.
\<close>

function advance_min_deg :: "'v set list \<Rightarrow> int \<Rightarrow> error + int" where
  "advance_min_deg dl md =
     (case py_index (length dl) md of
        Inl e \<Rightarrow> Inl e
      | Inr j \<Rightarrow> if dl ! j = {} then advance_min_deg dl (md + 1) else Inr md)"
  by pat_completeness auto
termination
  by (relation "measure (\<lambda>(dl, md). nat (int (length dl) - md))")
     (auto simp: py_index_def split: if_splits)

declare advance_min_deg.simps [simp del]

text \<open>Lines 224-236, the body of the loop over the neighbours of \<^verbatim>\<open>source\<close>.\<close>

definition inner_body :: "'v \<Rightarrow> 'v \<Rightarrow> ('v, 'l) dstate \<Rightarrow> error option \<times> ('v, 'l) dstate" where
  "inner_body source node s =
     attempt (dict_get (degrees (G s)) node) s (\<lambda>deg.
     attempt (bucket_remove (deg_list s) deg node) s (\<lambda>dl1.
     let s1 = s\<lparr>deg_list := dl1\<rparr> in
     attempt (bucket_add (deg_list s1) (deg - 1) node) s1 (\<lambda>dl2.
     let s2 = s1\<lparr>deg_list := dl2\<rparr>;
         s3 = (if deg - 1 < min_deg s2 then s2\<lparr>min_deg := deg - 1\<rparr> else s2) in
     attempt (bnd (dict_get (adj_list (G s3)) node) (\<lambda>c. py_remove c source)) s3 (\<lambda>c'.
     let s4 = s3\<lparr>G := (G s3)\<lparr>adj_list := AList.update node c' (adj_list (G s3))\<rparr>\<rparr> in
     attempt (dict_get (degrees (G s4)) node) s4 (\<lambda>d.
     let s5 = s4\<lparr>G := (G s4)\<lparr>degrees := AList.update node (d - 1) (degrees (G s4))\<rparr>\<rparr> in
     attempt (bnd (dict_get (adj_list (core_G s5)) source) (\<lambda>c. py_add c node)) s5 (\<lambda>c''.
     let s6 = s5\<lparr>core_G :=
                (core_G s5)\<lparr>adj_list := AList.update source c'' (adj_list (core_G s5))\<rparr>\<rparr> in
     attempt (dict_get (degrees (core_G s6)) source) s6 (\<lambda>d'.
     (None, s6\<lparr>core_G :=
                (core_G s6)\<lparr>degrees := AList.update source (d' + 1) (degrees (core_G s6))\<rparr>\<rparr>))))))))"

text \<open>
  Line 221, \<^verbatim>\<open>for node in G.adj_list[source]\<close>, over the nodes the container held
  when the loop began. The body changes that container only when \<open>node = source\<close>
  (line 232 then removes \<^verbatim>\<open>source\<close> from the set being iterated), and the
  iterator raises \<^verbatim>\<open>RuntimeError\<close> (set changed size during iteration) when it is
  next asked for an element.
\<close>

fun inner_loop :: "'v \<Rightarrow> 'v list \<Rightarrow> ('v, 'l) dstate \<Rightarrow> error option \<times> ('v, 'l) dstate" where
  "inner_loop source [] s = (None, s)"
| "inner_loop source (node # rest) s =
     (case inner_body source node s of
        (Some e, s') \<Rightarrow> (Some e, s')
      | (None, s') \<Rightarrow>
          if node = source then (Some RuntimeError, s') else inner_loop source rest s')"

text \<open>Lines 212-236, one round of the main loop.\<close>

definition main_body :: "'v set_order \<Rightarrow> ('v, 'l) dstate \<Rightarrow> error option \<times> ('v, 'l) dstate" where
  "main_body sch s =
     attempt (advance_min_deg (deg_list s) (min_deg s)) s (\<lambda>md.
     let s1 = s\<lparr>min_deg := md\<rparr> in
     attempt (bucket_pop sch (deg_list s1) (min_deg s1)) s1 (\<lambda>(source, dl).
     let s2 = s1\<lparr>deg_list := dl\<rparr>;
         s3 = s2\<lparr>top_order := top_order s2 @ [source]\<rparr> in
     attempt (dict_get (adj_list (G s3)) source) s3 (\<lambda>c.
     inner_loop source (py_iter sch c) s3)))"

text \<open>Line 207, \<^verbatim>\<open>for i in range(n)\<close>: the number of rounds left.\<close>

fun main_loop :: "'v set_order \<Rightarrow> nat \<Rightarrow> ('v, 'l) dstate \<Rightarrow> error option \<times> ('v, 'l) dstate" where
  "main_loop sch 0 s = (None, s)"
| "main_loop sch (Suc k) s =
     (case main_body sch s of
        (Some e, s') \<Rightarrow> (Some e, s')
      | (None, s') \<Rightarrow> main_loop sch k s')"

subsection \<open>The method\<close>

text \<open>
  Lines 187-236 on the working copy \<open>g\<close> made in line 186 and the new \<^verbatim>\<open>DAG\<close>
  object \<open>c\<close> made in line 189, with \<open>t\<close> the class attribute \<^verbatim>\<open>DAG.top_order\<close> as
  \<^verbatim>\<open>DAG()\<close> left it. The local list \<^verbatim>\<open>top_order\<close> of line 188 is never read.
\<close>

definition Degeneracy_run ::
  "'v set_order \<Rightarrow> ('v, 'l) graph \<Rightarrow> ('v, 'l) graph \<Rightarrow> 'v list \<Rightarrow> error option \<times> ('v, 'l) dstate" where
  "Degeneracy_run sch g c t =
     (let n = card (vertices g);
          c1 = c\<lparr>vertices := vertices g\<rparr>;
          c2 = fold init_node (iter_order sch (vertices c1)) c1;
          dl = replicate n {};
          md = int n;
          s = \<lparr>G = g, core_G = c2, deg_list = dl, min_deg = md, top_order = t\<rparr> in
      attempt (fill_buckets g (iter_order sch (vertices g)) (dl, md)) s (\<lambda>(dl', md').
        main_loop sch n (s\<lparr>deg_list := dl', min_deg := md'\<rparr>)))"

text \<open>
  \<^verbatim>\<open>self.Degeneracy()\<close> (lines 185-238) for the object \<open>self\<close> of the store: the
  result is the identity of the returned \<^verbatim>\<open>DAG\<close> or the exception raised, and the
  store after the call.
\<close>

definition Degeneracy ::
  "'v set_order \<Rightarrow> ('v, 'l) store \<Rightarrow> nat \<Rightarrow> (error + nat) \<times> ('v, 'l) store" where
  "Degeneracy sch st self =
     (let (G_id, st1) = deepcopy st self;
          (core_id, st2) = DAG_init st1;
          (r, s) = Degeneracy_run sch (snd (objects st2 G_id)) (snd (objects st2 core_id))
                     (DAG_top_order st2);
          st3 = st2\<lparr>objects := (objects st2)
                         (G_id := (fst (objects st2 G_id), G s), core_id := (DAG_cls, core_G s)),
                    DAG_top_order := top_order s\<rparr>
      in (case r of None \<Rightarrow> Inr core_id | Some e \<Rightarrow> Inl e, st3))"

section \<open>Invariants of graphs built by Add\_und\_edge\<close>

text \<open>The dict stored in \<^verbatim>\<open>adj_list[v]\<close>, empty when there is none.\<close>

definition nbrs_of :: "('v, 'l) graph \<Rightarrow> 'v \<Rightarrow> ('v \<times> 'l) list" where
  "nbrs_of g v = (case map_of (adj_list g) v of Some (PyDict d) \<Rightarrow> d | _ \<Rightarrow> [])"

text \<open>
  What every endpoint block keeps: the three attributes have the same keys, every
  neighbourhood is a non-empty dict without repeated keys and without the vertex itself,
  and the degree is its length.
\<close>

definition inv0 :: "('v, 'l) graph \<Rightarrow> bool" where
  "inv0 g \<longleftrightarrow>
     finite (vertices g) \<and> distinct (map fst (adj_list g)) \<and> distinct (map fst (degrees g)) \<and>
     fst ` set (adj_list g) = vertices g \<and> fst ` set (degrees g) = vertices g \<and>
     (\<forall>v \<in> vertices g. \<exists>d. map_of (adj_list g) v = Some (PyDict d) \<and> distinct (map fst d) \<and>
        d \<noteq> [] \<and> map_of (degrees g) v = Some (int (length d)) \<and> v \<notin> fst ` set d)"

text \<open>Every edge is stored at both endpoints with the same label.\<close>

definition symmetric :: "('v, 'l) graph \<Rightarrow> bool" where
  "symmetric g \<longleftrightarrow> (\<forall>u v l. (v, l) \<in> set (nbrs_of g u) \<longrightarrow> (u, l) \<in> set (nbrs_of g v))"

definition graph_inv :: "('v, 'l) graph \<Rightarrow> bool" where
  "graph_inv g \<longleftrightarrow> inv0 g \<and> symmetric g"

section \<open>Concrete graphs\<close>

text \<open>Graphs with integer vertices and string labels, used to run the definitions.\<close>

definition two_edges :: "(int, string) graph" where
  "two_edges = \<lparr>adj_list = [(1, PyDict [(2, ''m1''), (3, ''m2'')]), (2, PyDict [(1, ''m1'')]),
                             (3, PyDict [(1, ''m2'')])],
                 vertices = {1, 2, 3}, degrees = [(1, 2), (2, 1), (3, 1)]\<rparr>"

definition one_edge :: "(int, string) graph" where
  "one_edge = \<lparr>adj_list = [(1, PyDict [(2, ''m1'')]), (2, PyDict [(1, ''m1'')])],
               vertices = {1, 2}, degrees = [(1, 1), (2, 1)]\<rparr>"

definition path4 :: "(int, string) graph" where
  "path4 = \<lparr>adj_list = [(1, PyDict [(2, ''m1'')]), (2, PyDict [(1, ''m1''), (3, ''m2'')]),
                         (3, PyDict [(2, ''m2''), (4, ''m3'')]), (4, PyDict [(3, ''m3'')])],
             vertices = {1, 2, 3, 4}, degrees = [(1, 1), (2, 2), (3, 2), (4, 1)]\<rparr>"

text \<open>
  The single edge between 1 and 2 with neighbourhoods that are sets, as the class
  stored them before edge labels were added (and as \<^verbatim>\<open>Degeneracy\<close> still expects).
\<close>

definition one_edge_sets :: "(int, string) graph" where
  "one_edge_sets = \<lparr>adj_list = [(1, PySet {2}), (2, PySet {1})],
                    vertices = {1, 2}, degrees = [(1, 1), (2, 1)]\<rparr>"

text \<open>A store whose only object, with identity 0, is an instance of graph.\<close>

definition store_with :: "('v, 'l) graph \<Rightarrow> ('v, 'l) store" where
  "store_with g = \<lparr>objects = (\<lambda>_. (graph_cls, g)), next_id = 1, DAG_top_order = []\<rparr>"

text \<open>A store with two instances of graph: the empty graph (0) and the single edge (1).\<close>

definition two_graphs :: "(int, string) store" where
  "two_graphs =
     \<lparr>objects = (\<lambda>i. if i = 0 then (graph_cls, graph_init) else (graph_cls, one_edge)),
      next_id = 2, DAG_top_order = []\<rparr>"

section \<open>Notions the claims use\<close>

text \<open>The largest degree stored in a graph that has a vertex.\<close>

definition max_degree :: "('v, 'l) graph \<Rightarrow> int" where
  "max_degree g = Max (snd ` set (degrees g))"

text \<open>The exact number of wedges, \<open>\<Sum>\<^sub>v C(deg v, 2)\<close>, as an integer.\<close>

definition exact_wedges :: "('v, 'l) graph \<Rightarrow> int" where
  "exact_wedges g =
     (\<Sum>v \<in> vertices g. case map_of (degrees g) v of Some d \<Rightarrow> d * (d - 1) div 2 | None \<Rightarrow> 0)"

text \<open>The sum of the degrees of the vertices.\<close>

definition degree_sum :: "('v, 'l) graph \<Rightarrow> int" where
  "degree_sum g = (\<Sum>v \<in> vertices g. case map_of (degrees g) v of Some d \<Rightarrow> d | None \<Rightarrow> 0)"

text \<open>The calls that build a star: centre 0 and leaves \<open>1, \<dots>, n\<close>.\<close>

definition star_edges :: "nat \<Rightarrow> (int \<times> int \<times> string) list" where
  "star_edges n = map (\<lambda>i. (0, int (Suc i), ''m'')) [0 ..< n]"

definition triangle :: "(int, string) graph" where
  "triangle = \<lparr>adj_list = [(1, PyDict [(2, ''m1''), (3, ''m1'')]),
                            (2, PyDict [(1, ''m1''), (3, ''m1'')]),
                            (3, PyDict [(1, ''m1''), (2, ''m1'')])],
                vertices = {1, 2, 3}, degrees = [(1, 2), (2, 2), (3, 2)]\<rparr>"

section \<open>Add\_und\_edge keeps the invariants\<close>

lemma bnd_simps [simp]: "bnd (Inl e) f = Inl e" "bnd (Inr x) f = f x"
  by (simp_all add: bnd_def)

lemma update_fresh: "k \<notin> fst ` set d \<Longrightarrow> AList.update k v d = d @ [(k, v)]"
  by (induction d) auto

lemma dom_update_set: "fst ` set (AList.update k v d) = insert k (fst ` set d)"
  using AList.dom_update[of k v d] by (simp add: dom_map_of_conv_image_fst)

lemma add_endpoint_result:
  assumes "inv0 g" "a \<noteq> b"
  shows "\<exists>g'. add_endpoint g a b l = Inr g' \<and> inv0 g' \<and> vertices g' = insert a (vertices g) \<and>
     (\<forall>x. nbrs_of g' x = (if x = a \<and> b \<notin> fst ` set (nbrs_of g a) then nbrs_of g a @ [(b, l)]
                           else nbrs_of g x))"
proof (cases "a \<in> vertices g")
  case False
  then have na: "map_of (adj_list g) a = None"
    using assms(1) by (auto simp: inv0_def map_of_eq_None_iff)
  let ?g' = "g\<lparr>vertices := insert a (vertices g),
               adj_list := AList.update a (PyDict [(b, l)]) (adj_list g),
               degrees := AList.update a 1 (degrees g)\<rparr>"
  have r: "add_endpoint g a b l = Inr ?g'" using False by (simp add: add_endpoint_def)
  have i: "inv0 ?g'"
    using assms False unfolding inv0_def
    by (auto simp: AList.distinct_update dom_update_set AList.update_conv')
  have n: "\<forall>x. nbrs_of ?g' x = (if x = a \<and> b \<notin> fst ` set (nbrs_of g a) then nbrs_of g a @ [(b, l)]
                           else nbrs_of g x)"
    using na by (auto simp: nbrs_of_def AList.update_conv')
  show ?thesis using r i n by auto
next
  case True
  then obtain d where d: "map_of (adj_list g) a = Some (PyDict d)" "distinct (map fst d)"
     "d \<noteq> []" "map_of (degrees g) a = Some (int (length d))" "a \<notin> fst ` set d"
    using assms(1) unfolding inv0_def by blast
  have nd: "nbrs_of g a = d" using d by (simp add: nbrs_of_def)
  show ?thesis
  proof (cases "b \<in> fst ` set d")
    case True
    then have "add_endpoint g a b l = Inr g"
      using \<open>a \<in> vertices g\<close> d by (simp add: add_endpoint_def dict_get_def py_in_def)
    then show ?thesis using assms(1) \<open>a \<in> vertices g\<close> True nd by (auto simp: insert_absorb)
  next
    case False
    let ?g' = "g\<lparr>adj_list := AList.update a (PyDict (d @ [(b, l)])) (adj_list g),
                  degrees := AList.update a (int (length d) + 1) (degrees g)\<rparr>"
    have r: "add_endpoint g a b l = Inr ?g'"
      using \<open>a \<in> vertices g\<close> d False
      by (simp add: add_endpoint_def dict_get_def py_in_def py_setitem_def update_fresh
          AList.update_conv' Let_def)
    have i: "inv0 ?g'"
      using assms \<open>a \<in> vertices g\<close> d False unfolding inv0_def
      by (auto simp: AList.distinct_update dom_update_set AList.update_conv' insert_absorb)
    have n: "\<forall>x. nbrs_of ?g' x = (if x = a \<and> b \<notin> fst ` set (nbrs_of g a) then nbrs_of g a @ [(b, l)]
                           else nbrs_of g x)"
      using False nd by (auto simp: nbrs_of_def AList.update_conv')
    show ?thesis using r i n \<open>a \<in> vertices g\<close> by (auto simp: insert_absorb)
  qed
qed

lemma nbrs_keys_symmetric:
  assumes "symmetric g"
  shows "v \<in> fst ` set (nbrs_of g u) \<longleftrightarrow> u \<in> fst ` set (nbrs_of g v)"
  using assms unfolding symmetric_def by (metis fst_conv image_iff prod.collapse)

lemma key_is_vertex:
  assumes "inv0 g" "map_of (adj_list g) a = Some c"
  shows "a \<in> vertices g"
proof -
  have "(a, c) \<in> set (adj_list g)" using assms(2) by (rule map_of_SomeD)
  then have "a \<in> fst ` set (adj_list g)" by force
  then show ?thesis using assms(1) by (simp add: inv0_def)
qed


lemma nbrs_of_lookup:
  assumes "nbrs_of g a \<noteq> []"
  shows "map_of (adj_list g) a = Some (PyDict (nbrs_of g a))"
proof (cases "map_of (adj_list g) a")
  case None
  then show ?thesis using assms by (simp add: nbrs_of_def)
next
  case (Some c)
  then show ?thesis using assms by (cases c) (simp_all add: nbrs_of_def)
qed

lemma nbrs_of_vertex:
  assumes "inv0 g" "nbrs_of g a \<noteq> []"
  shows "a \<in> vertices g"
  using assms(1) nbrs_of_lookup[OF assms(2)] by (rule key_is_vertex)

lemma add_endpoint_noop:
  assumes "inv0 g" "b \<in> fst ` set (nbrs_of g a)"
  shows "add_endpoint g a b l = Inr g"
proof -
  have ne: "nbrs_of g a \<noteq> []" using assms(2) by auto
  have v: "a \<in> vertices g" using assms(1) ne by (rule nbrs_of_vertex)
  have "map_of (adj_list g) a = Some (PyDict (nbrs_of g a))" using ne by (rule nbrs_of_lookup)
  then show ?thesis using v assms(2)
    by (simp add: add_endpoint_def dict_get_def py_in_def)
qed

lemma Add_und_edge_present:
  assumes "graph_inv g" "v \<in> fst ` set (nbrs_of g u)"
  shows "Add_und_edge g u v l = Inr g"
proof -
  have "u \<in> fst ` set (nbrs_of g v)" using assms nbrs_keys_symmetric[of g v u] by (simp add: graph_inv_def)
  then show ?thesis using assms by (simp add: Add_und_edge_def add_endpoint_noop graph_inv_def)
qed

lemma Add_und_edge_absent:
  assumes "graph_inv g" and ne: "u \<noteq> v" and nv: "v \<notin> fst ` set (nbrs_of g u)"
  shows "\<exists>g'. Add_und_edge g u v l = Inr g' \<and> graph_inv g' \<and>
     vertices g' = insert u (insert v (vertices g)) \<and>
     (\<forall>x. nbrs_of g' x = (if x = u then nbrs_of g u @ [(v, l)]
                           else if x = v then nbrs_of g v @ [(u, l)] else nbrs_of g x))"
proof -
  have nu: "u \<notin> fst ` set (nbrs_of g v)"
    using nv assms(1) nbrs_keys_symmetric[of g v u] by (simp add: graph_inv_def)
  have i0: "inv0 g" and sy: "symmetric g" using assms(1) by (auto simp: graph_inv_def)
  obtain g1 where g1: "add_endpoint g u v l = Inr g1" "inv0 g1"
     "vertices g1 = insert u (vertices g)"
     "\<forall>x. nbrs_of g1 x = (if x = u \<and> v \<notin> fst ` set (nbrs_of g u)
                            then nbrs_of g u @ [(v, l)] else nbrs_of g x)"
    using add_endpoint_result[OF i0 ne, of l] by blast
  have ne': "v \<noteq> u" using ne by simp
  obtain g2 where g2: "add_endpoint g1 v u l = Inr g2" "inv0 g2"
     "vertices g2 = insert v (vertices g1)"
     "\<forall>x. nbrs_of g2 x = (if x = v \<and> u \<notin> fst ` set (nbrs_of g1 v)
                            then nbrs_of g1 v @ [(u, l)] else nbrs_of g1 x)"
    using add_endpoint_result[OF g1(2) ne', of l] by blast
  have n2: "\<And>x. nbrs_of g2 x = (if x = u then nbrs_of g u @ [(v, l)]
                     else if x = v then nbrs_of g v @ [(u, l)] else nbrs_of g x)"
    using g1(4) g2(4) ne nv nu by auto
  have s: "\<And>a b k. (b, k) \<in> set (nbrs_of g a) \<Longrightarrow> (a, k) \<in> set (nbrs_of g b)"
    using sy unfolding symmetric_def by blast
  have "symmetric g2"
    unfolding symmetric_def
  proof (intro allI impI)
    fix a b k assume h: "(b, k) \<in> set (nbrs_of g2 a)"
    consider (new1) "a = u" "b = v" "k = l" | (new2) "a = v" "b = u" "k = l"
      | (old) "(b, k) \<in> set (nbrs_of g a)"
      using h ne unfolding n2 by (auto split: if_splits)
    then show "(a, k) \<in> set (nbrs_of g2 b)"
    proof cases
      case new1 then show ?thesis using ne by (simp add: n2)
    next
      case new2 then show ?thesis using ne by (simp add: n2)
    next
      case old
      then have "(a, k) \<in> set (nbrs_of g b)" by (rule s)
      then show ?thesis unfolding n2[of b] by auto
    qed
  qed
  then have gi: "graph_inv g2" using g2(2) by (simp add: graph_inv_def)
  have r: "Add_und_edge g u v l = Inr g2" using g1(1) g2(1) ne by (simp add: Add_und_edge_def)
  have vs: "vertices g2 = insert u (insert v (vertices g))" using g1(3) g2(3) by auto
  show ?thesis using r gi vs n2 by blast
qed

lemma Add_und_edge_inv:
  assumes "graph_inv g"
  shows "\<exists>g'. Add_und_edge g u v l = Inr g' \<and> graph_inv g'"
proof -
  consider (loop) "u = v" | (present) "v \<in> fst ` set (nbrs_of g u)"
    | (absent) "u \<noteq> v" "v \<notin> fst ` set (nbrs_of g u)" by blast
  then show ?thesis
  proof cases
    case loop
    then show ?thesis using assms by (simp add: Add_und_edge_def)
  next
    case present
    then show ?thesis using assms Add_und_edge_present[OF assms, of v u l] by simp
  next
    case absent
    then show ?thesis using Add_und_edge_absent[OF assms, of u v l] by blast
  qed
qed

lemma graph_init_inv: "graph_inv graph_init"
  by (simp add: graph_inv_def inv0_def symmetric_def nbrs_of_def graph_init_def)

lemma add_edges_inv:
  "graph_inv g \<Longrightarrow> \<exists>g'. add_edges g es = Inr g' \<and> graph_inv g'"
proof (induction es arbitrary: g)
  case Nil then show ?case by simp
next
  case (Cons e es)
  obtain u v l where e: "e = (u, v, l)" by (cases e) auto
  obtain g1 where "Add_und_edge g u v l = Inr g1" "graph_inv g1"
    using Add_und_edge_inv[OF Cons.prems] by blast
  then show ?case using Cons.IH[of g1] e by simp
qed

lemma built_inv: "add_edges graph_init es = Inr g \<Longrightarrow> graph_inv g"
  using add_edges_inv[OF graph_init_inv, of es] by auto

lemma lookup_membership:
  assumes "inv0 g"
  shows "(if a \<in> vertices g
          then bnd (dict_get (adj_list g) a) (\<lambda>nbrs. Inr (py_in b nbrs))
          else Inr False) = Inr (b \<in> fst ` set (nbrs_of g a))"
proof (cases "a \<in> vertices g")
  case True
  then obtain d where d: "map_of (adj_list g) a = Some (PyDict d)"
    using assms unfolding inv0_def by blast
  have "nbrs_of g a = d" using d by (simp add: nbrs_of_def)
  then show ?thesis using True d by (simp add: dict_get_def py_in_def)
next
  case False
  have "nbrs_of g a = []"
  proof (rule ccontr)
    assume "nbrs_of g a \<noteq> []"
    with assms have "a \<in> vertices g" by (rule nbrs_of_vertex)
    with False show False by simp
  qed
  then show ?thesis using False by simp
qed

lemma isEdge_inv:
  assumes "graph_inv g"
  shows "isEdge g u v = Inr (if v \<in> fst ` set (nbrs_of g u) then 1 else 0)"
proof -
  have i0: "inv0 g" and sy: "symmetric g" using assms by (simp_all add: graph_inv_def)
  have eq: "(u \<in> fst ` set (nbrs_of g v)) = (v \<in> fst ` set (nbrs_of g u))"
    using sy by (rule nbrs_keys_symmetric)
  show ?thesis
    by (simp add: isEdge_def lookup_membership[OF i0] eq)
qed
lemma inv0_degree_len:
  assumes "inv0 g" "v \<in> vertices g"
  shows "\<exists>c. dict_get (adj_list g) v = Inr c \<and> dict_get (degrees g) v = Inr (int (py_len c))"
proof -
  obtain d where d: "map_of (adj_list g) v = Some (PyDict d)" "distinct (map fst d)"
      "map_of (degrees g) v = Some (int (length d))"
    using assms unfolding inv0_def by blast
  have "py_len (PyDict d) = length d" using d(2) by (simp add: py_len_def distinct_remdups_id)
  then show ?thesis using d by (simp add: dict_get_def)
qed

lemma two_edges_eval:
  "add_edges graph_init [(1, 2, ''m1''), (1, 3, ''m2'')] = Inr two_edges"
  by (simp add: Add_und_edge_def add_endpoint_def dict_get_def py_in_def py_setitem_def
      graph_init_def two_edges_def insert_commute)

lemma one_edge_eval: "add_edges graph_init [(1, 2, ''m1'')] = Inr one_edge"
  by (simp add: Add_und_edge_def add_endpoint_def dict_get_def py_in_def py_setitem_def
      graph_init_def one_edge_def insert_commute)

lemma one_edge_isEdge: "isEdge one_edge 1 2 = Inr 1"
  by (simp add: isEdge_def one_edge_def dict_get_def py_in_def)

section \<open>Degeneracy on graphs built by Add\_und\_edge\<close>

lemma attempt_simps [simp]:
  "attempt (Inl e) s k = (Some e, s)" "attempt (Inr x) s k = k x"
  by (simp_all add: attempt_def)

lemma py_index_in_range: "0 \<le> i \<Longrightarrow> i < int n \<Longrightarrow> py_index n i = Inr (nat i)"
  by (simp add: py_index_def)

lemma bucket_add_in_range:
  "0 \<le> i \<Longrightarrow> i < int (length dl) \<Longrightarrow>
   bucket_add dl i x = Inr (dl[nat i := insert x (dl ! nat i)])"
  by (simp add: bucket_add_def py_index_in_range)

lemma fill_buckets_ok:
  assumes "\<forall>v \<in> set xs. \<exists>d. map_of (degrees g) v = Some d \<and> 0 \<le> d \<and> d < int (length dl)"
  shows "\<exists>dl' md'. fill_buckets g xs (dl, md) = Inr (dl', md') \<and> length dl' = length dl \<and>
     (\<forall>j < length dl. dl' ! j = dl ! j \<union> {v \<in> set xs. map_of (degrees g) v = Some (int j)}) \<and>
     md' \<le> md \<and> (\<forall>v \<in> set xs. \<forall>d. map_of (degrees g) v = Some d \<longrightarrow> md' \<le> d) \<and>
     (md' = md \<or> (\<exists>v \<in> set xs. map_of (degrees g) v = Some md'))"
  using assms
proof (induction xs arbitrary: dl md)
  case Nil
  then show ?case by simp
next
  case (Cons node rest)
  obtain d where d: "map_of (degrees g) node = Some d" "0 \<le> d" "d < int (length dl)"
    using Cons.prems by auto
  let ?dl1 = "dl[nat d := insert node (dl ! nat d)]"
  let ?md1 = "if d < md then d else md"
  have step: "fill_buckets g (node # rest) (dl, md) = fill_buckets g rest (?dl1, ?md1)"
    using d by (simp add: dict_get_def bucket_add_in_range)
  have pre: "\<forall>v \<in> set rest. \<exists>d. map_of (degrees g) v = Some d \<and> 0 \<le> d \<and> d < int (length ?dl1)"
    using Cons.prems by simp
  obtain dl' md' where r: "fill_buckets g rest (?dl1, ?md1) = Inr (dl', md')"
      "length dl' = length ?dl1"
      "\<forall>j < length ?dl1. dl' ! j = ?dl1 ! j \<union> {v \<in> set rest. map_of (degrees g) v = Some (int j)}"
      "md' \<le> ?md1" "\<forall>v \<in> set rest. \<forall>d. map_of (degrees g) v = Some d \<longrightarrow> md' \<le> d"
      "md' = ?md1 \<or> (\<exists>v \<in> set rest. map_of (degrees g) v = Some md')"
    using Cons.IH[OF pre, of ?md1] by blast
  have b: "\<forall>j < length dl. dl' ! j = dl ! j \<union> {v \<in> set (node # rest). map_of (degrees g) v = Some (int j)}"
  proof (intro allI impI)
    fix j assume j: "j < length dl"
    have "dl' ! j = ?dl1 ! j \<union> {v \<in> set rest. map_of (degrees g) v = Some (int j)}"
      using r(3) j by simp
    moreover have "?dl1 ! j = dl ! j \<union> (if j = nat d then {node} else {})"
      using j by (auto simp: nth_list_update)
    moreover have "(j = nat d) = (map_of (degrees g) node = Some (int j))"
      using d by auto
    ultimately show "dl' ! j = dl ! j \<union> {v \<in> set (node # rest). map_of (degrees g) v = Some (int j)}"
      by auto
  qed
  have m1: "md' \<le> md" using r(4) by (simp split: if_splits)
  have m2: "\<forall>v \<in> set (node # rest). \<forall>d. map_of (degrees g) v = Some d \<longrightarrow> md' \<le> d"
    using r(4,5) d by (auto split: if_splits)
  have m3: "md' = md \<or> (\<exists>v \<in> set (node # rest). map_of (degrees g) v = Some md')"
    using r(6) d by (auto split: if_splits)
  show ?case using step r(1,2) b m1 m2 m3 by simp
qed


lemma inv_vertex_facts:
  assumes "graph_inv g" "v \<in> vertices g"
  shows "\<exists>d. map_of (adj_list g) v = Some (PyDict d) \<and> d \<noteq> [] \<and>
           map_of (degrees g) v = Some (int (length d)) \<and> fst ` set d \<subseteq> vertices g - {v} \<and>
           int (length d) < int (card (vertices g))"
proof -
  have i0: "inv0 g" and sy: "symmetric g" using assms(1) by (simp_all add: graph_inv_def)
  obtain d where d: "map_of (adj_list g) v = Some (PyDict d)" "distinct (map fst d)" "d \<noteq> []"
      "map_of (degrees g) v = Some (int (length d))" "v \<notin> fst ` set d"
    using i0 assms(2) unfolding inv0_def by blast
  have nd: "nbrs_of g v = d" using d(1) by (simp add: nbrs_of_def)
  have fin: "finite (vertices g)" using i0 by (simp add: inv0_def)
  have sub: "fst ` set d \<subseteq> vertices g - {v}"
  proof
    fix u assume "u \<in> fst ` set d"
    then obtain l where "(u, l) \<in> set (nbrs_of g v)" using nd by auto
    then have "(v, l) \<in> set (nbrs_of g u)" using sy unfolding symmetric_def by blast
    then have "nbrs_of g u \<noteq> []" by auto
    with i0 have "u \<in> vertices g" by (rule nbrs_of_vertex)
    moreover have "u \<noteq> v" using \<open>u \<in> fst ` set d\<close> d(5) by auto
    ultimately show "u \<in> vertices g - {v}" by simp
  qed
  have "length d = card (fst ` set d)"
    using d(2) distinct_card[of "map fst d"] by simp
  also have "\<dots> \<le> card (vertices g - {v})" using sub fin by (simp add: card_mono)
  also have "\<dots> < card (vertices g)" using fin assms(2) by (rule card_Diff1_less)
  finally have "int (length d) < int (card (vertices g))" by simp
  then show ?thesis using d sub by blast
qed

lemma advance_min_deg_found:
  assumes "0 \<le> md" "md < int (length dl)" "dl ! nat md \<noteq> {}"
  shows "advance_min_deg dl md = Inr md"
  using assms by (subst advance_min_deg.simps) (simp add: py_index_in_range)

lemma bucket_pop_in_range:
  assumes "0 \<le> i" "i < int (length dl)" "dl ! nat i \<noteq> {}"
  shows "bucket_pop sch dl i =
     Inr (pop_choice sch (dl ! nat i), dl[nat i := dl ! nat i - {pop_choice sch (dl ! nat i)}])"
  using assms by (simp add: bucket_pop_def py_index_in_range Let_def)

lemma bucket_remove_in_range:
  assumes "0 \<le> i" "i < int (length dl)" "x \<in> dl ! nat i"
  shows "bucket_remove dl i x = Inr (dl[nat i := dl ! nat i - {x}])"
  using assms by (simp add: bucket_remove_def py_index_in_range)

text \<open>The first neighbour visited in a graph whose neighbourhoods are dicts.\<close>

lemma inner_body_dict_raises:
  assumes "map_of (degrees (G s)) node = Some deg" "1 \<le> deg" "deg < int (length (deg_list s))"
    "node \<in> deg_list s ! nat deg" "map_of (adj_list (G s)) node = Some (PyDict d)"
  shows "fst (inner_body source node s) = Some AttributeError \<and>
         top_order (snd (inner_body source node s)) = top_order s \<and>
         core_G (snd (inner_body source node s)) = core_G s"
proof -
  have r: "bucket_remove (deg_list s) deg node =
      Inr ((deg_list s)[nat deg := deg_list s ! nat deg - {node}])"
    using assms by (intro bucket_remove_in_range) auto
  let ?dl1 = "(deg_list s)[nat deg := deg_list s ! nat deg - {node}]"
  have a: "bucket_add ?dl1 (deg - 1) node =
      Inr (?dl1[nat (deg - 1) := insert node (?dl1 ! nat (deg - 1))])"
    using assms by (intro bucket_add_in_range) auto
  show ?thesis
    unfolding inner_body_def
    using assms(1,5) r a by (simp add: dict_get_def Let_def py_remove_def)
qed


lemma inv_degree_bounds:
  assumes "graph_inv g" "v \<in> vertices g"
  shows "\<exists>k. map_of (degrees g) v = Some k \<and> 1 \<le> k \<and> k < int (card (vertices g))"
proof -
  obtain d where d: "map_of (adj_list g) v = Some (PyDict d)" "d \<noteq> []"
      "map_of (degrees g) v = Some (int (length d))" "int (length d) < int (card (vertices g))"
    using inv_vertex_facts[OF assms] by blast
  have "1 \<le> int (length d)" using d(2) by (cases d) simp_all
  then show ?thesis using d(3,4) by blast
qed

lemma Degeneracy_run_raises:
  assumes inv: "graph_inv g" and ne: "vertices g \<noteq> {}" and ok: "order_ok sch"
  shows "\<exists>source \<in> vertices g. fst (Degeneracy_run sch g c t) = Some AttributeError \<and>
           top_order (snd (Degeneracy_run sch g c t)) = t @ [source] \<and>
           core_G (snd (Degeneracy_run sch g c t)) =
             fold init_node (iter_order sch (vertices g)) (c\<lparr>vertices := vertices g\<rparr>)"
proof -
  let ?V = "vertices g"
  let ?n = "card ?V"
  let ?xs = "iter_order sch ?V"
  have fin: "finite ?V" using inv by (simp add: graph_inv_def inv0_def)
  have xs: "set ?xs = ?V" using ok fin by (simp add: order_ok_def)
  have npos: "0 < ?n" using fin ne by (simp add: card_gt_0_iff)
  have db: "\<And>v. v \<in> ?V \<Longrightarrow> \<exists>k. map_of (degrees g) v = Some k \<and> 1 \<le> k \<and> k < int ?n"
    using inv by (rule inv_degree_bounds)
  have pre: "\<forall>v \<in> set ?xs. \<exists>d. map_of (degrees g) v = Some d \<and> 0 \<le> d \<and>
               d < int (length (replicate ?n ({} :: 'a set)))"
  proof
    fix v assume "v \<in> set ?xs"
    then have "v \<in> ?V" using xs by simp
    from db[OF this] obtain k where "map_of (degrees g) v = Some k" "1 \<le> k" "k < int ?n"
      by blast
    then show "\<exists>d. map_of (degrees g) v = Some d \<and> 0 \<le> d \<and>
               d < int (length (replicate ?n ({} :: 'a set)))" by auto
  qed
  obtain dl' md' where f: "fill_buckets g ?xs (replicate ?n {}, int ?n) = Inr (dl', md')"
      "length dl' = length (replicate ?n ({} :: 'a set))"
      "\<forall>j < length (replicate ?n ({} :: 'a set)).
          dl' ! j = replicate ?n {} ! j \<union> {v \<in> set ?xs. map_of (degrees g) v = Some (int j)}"
      "\<forall>v \<in> set ?xs. \<forall>d. map_of (degrees g) v = Some d \<longrightarrow> md' \<le> d"
      "md' = int ?n \<or> (\<exists>v \<in> set ?xs. map_of (degrees g) v = Some md')"
    using fill_buckets_ok[OF pre, of "int ?n"] by blast
  have len: "length dl' = ?n" using f(2) by simp
  have bucket: "\<And>j. j < ?n \<Longrightarrow> dl' ! j = {v \<in> ?V. map_of (degrees g) v = Some (int j)}"
    using f(3) xs by simp
  obtain v0 where v0: "v0 \<in> ?V" using ne by blast
  from db[OF v0] obtain k0 where k0: "map_of (degrees g) v0 = Some k0" "k0 < int ?n" by blast
  have "md' \<le> k0" using f(4) v0 xs k0(1) by blast
  then have "md' \<noteq> int ?n" using k0(2) by simp
  then obtain w where w: "w \<in> ?V" "map_of (degrees g) w = Some md'"
    using f(5) xs by auto
  from db[OF w(1)] have md: "1 \<le> md'" "md' < int ?n" using w(2) by auto
  let ?B = "dl' ! nat md'"
  have B: "?B = {v \<in> ?V. map_of (degrees g) v = Some md'}"
    using bucket[of "nat md'"] md by simp
  have Bne: "?B \<noteq> {}" using B w by auto
  have Bfin: "finite ?B" using B fin by simp
  let ?source = "pop_choice sch ?B"
  have src: "?source \<in> ?B" using ok Bfin Bne by (simp add: order_ok_def)
  then have srcV: "?source \<in> ?V" using B by simp
  obtain ds where ds: "map_of (adj_list g) ?source = Some (PyDict ds)" "ds \<noteq> []"
      "fst ` set ds \<subseteq> ?V - {?source}"
    using inv_vertex_facts[OF inv srcV] by blast
  obtain node l rest where dsc: "ds = (node, l) # rest" using ds(2) by (cases ds) auto
  have nodeV: "node \<in> ?V" and nodene: "node \<noteq> ?source" using ds(3) dsc by auto
  obtain dn where dn: "map_of (adj_list g) node = Some (PyDict dn)"
    using inv_vertex_facts[OF inv nodeV] by blast
  from db[OF nodeV] obtain kn where kn: "map_of (degrees g) node = Some kn" "1 \<le> kn" "kn < int ?n"
    by blast
  let ?dl2 = "dl'[nat md' := ?B - {?source}]"
  let ?c2 = "fold init_node (iter_order sch ?V) (c\<lparr>vertices := ?V\<rparr>)"
  let ?s3 = "\<lparr>G = g, core_G = ?c2, deg_list = ?dl2, min_deg = md', top_order = t @ [?source]\<rparr>"
  have node_in: "node \<in> ?dl2 ! nat kn"
  proof -
    have "node \<in> dl' ! nat kn" using bucket[of "nat kn"] kn nodeV by simp
    then show ?thesis using nodene len md by (auto simp: nth_list_update)
  qed
  have ib: "fst (inner_body ?source node ?s3) = Some AttributeError \<and>
         top_order (snd (inner_body ?source node ?s3)) = top_order ?s3 \<and>
         core_G (snd (inner_body ?source node ?s3)) = core_G ?s3"
    by (rule inner_body_dict_raises[where deg = kn and d = dn])
       (use dn kn len node_in in simp_all)
  obtain e s' where es: "inner_body ?source node ?s3 = (e, s')"
    by (cases "inner_body ?source node ?s3")
  have il: "inner_loop ?source (node # map fst rest) ?s3 = (Some AttributeError, s')"
    using ib es by simp
  have adv: "advance_min_deg dl' md' = Inr md'"
    using md len Bne by (intro advance_min_deg_found) simp_all
  have pop: "bucket_pop sch dl' md' = Inr (?source, ?dl2)"
    using md len Bne by (intro bucket_pop_in_range) simp_all
  have mb: "main_body sch \<lparr>G = g, core_G = ?c2, deg_list = dl', min_deg = md', top_order = t\<rparr>
      = (Some AttributeError, s')"
    using ds(1) il by (simp add: main_body_def adv pop Let_def dict_get_def py_iter_def dsc)
  obtain k where k: "?n = Suc k" using npos by (cases ?n) auto
  have ml: "main_loop sch ?n \<lparr>G = g, core_G = ?c2, deg_list = dl', min_deg = md', top_order = t\<rparr>
      = (Some AttributeError, s')"
    unfolding k using mb by simp
  have run: "Degeneracy_run sch g c t = (Some AttributeError, s')"
    unfolding Degeneracy_run_def Let_def using f(1) ml by simp
  have "top_order s' = t @ [?source]" "core_G s' = ?c2" using ib es by simp_all
  then show ?thesis using run srcV by auto
qed

lemma order_ok_ascending: "order_ok (ascending :: ('a :: linorder) set_order)"
  by (simp add: order_ok_def ascending_def)

lemma Degeneracy_unfold:
  "Degeneracy sch st self =
     (let r = Degeneracy_run sch (snd (objects st self)) graph_init [] in
      (case fst r of None \<Rightarrow> Inr (Suc (next_id st)) | Some e \<Rightarrow> Inl e,
       \<lparr>objects = (objects st)(next_id st := (fst (objects st self), G (snd r)),
                               Suc (next_id st) := (DAG_cls, core_G (snd r))),
        next_id = Suc (Suc (next_id st)),
        DAG_top_order = top_order (snd r)\<rparr>))"
  by (cases "Degeneracy_run sch (snd (objects st self)) graph_init []")
     (simp add: Degeneracy_def deepcopy_def DAG_init_def Let_def split: option.splits)


lemma Degeneracy_store_raises:
  assumes "graph_inv (snd (objects st self))" "vertices (snd (objects st self)) \<noteq> {}" "order_ok sch"
  shows "fst (Degeneracy sch st self) = Inl AttributeError \<and>
         (\<exists>source \<in> vertices (snd (objects st self)).
            DAG_top_order (snd (Degeneracy sch st self)) = [source]) \<and>
         snd (objects (snd (Degeneracy sch st self)) (Suc (next_id st))) =
           fold init_node (iter_order sch (vertices (snd (objects st self))))
             (graph_init\<lparr>vertices := vertices (snd (objects st self))\<rparr>)"
proof -
  obtain source where "source \<in> vertices (snd (objects st self))"
    "fst (Degeneracy_run sch (snd (objects st self)) graph_init []) = Some AttributeError"
    "top_order (snd (Degeneracy_run sch (snd (objects st self)) graph_init [])) = [] @ [source]"
    "core_G (snd (Degeneracy_run sch (snd (objects st self)) graph_init [])) =
       fold init_node (iter_order sch (vertices (snd (objects st self))))
         (graph_init\<lparr>vertices := vertices (snd (objects st self))\<rparr>)"
    using Degeneracy_run_raises[OF assms, of graph_init "[]"] by blast
  then show ?thesis by (auto simp: Degeneracy_unfold Let_def)
qed

lemma Degeneracy_run_empty:
  assumes "vertices g = {}" "order_ok sch"
  shows "Degeneracy_run sch g graph_init t =
     (None, \<lparr>G = g, core_G = graph_init, deg_list = [], min_deg = 0, top_order = t\<rparr>)"
proof -
  have "set (iter_order sch {}) = {}" using assms(2) unfolding order_ok_def by blast
  then have "iter_order sch {} = []" by simp
  then show ?thesis using assms(1) by (simp add: Degeneracy_run_def graph_init_def)
qed

lemma Degeneracy_store_empty:
  assumes "vertices (snd (objects st self)) = {}" "order_ok sch"
  shows "fst (Degeneracy sch st self) = Inr (Suc (next_id st)) \<and>
         objects (snd (Degeneracy sch st self)) (Suc (next_id st)) = (DAG_cls, graph_init) \<and>
         top_order_of (snd (Degeneracy sch st self)) (Suc (next_id st)) = Inr []"
  using Degeneracy_run_empty[OF assms]
  by (simp add: Degeneracy_unfold Let_def top_order_of_def)

lemma Degeneracy_frame:
  assumes "x < next_id st"
  shows "objects (snd (Degeneracy sch st self)) x = objects st x"
  using assms by (simp add: Degeneracy_unfold Let_def)


lemma fold_init_node_adj:
  "map_of (adj_list (fold init_node xs c)) v =
     (if v \<in> set xs then Some (PySet {}) else map_of (adj_list c) v)"
  by (induction xs arbitrary: c) (auto simp: init_node_def AList.update_conv')

lemma fold_init_node_degrees:
  "map_of (degrees (fold init_node xs c)) v =
     (if v \<in> set xs then Some 0 else map_of (degrees c) v)"
  by (induction xs arbitrary: c) (auto simp: init_node_def AList.update_conv')

lemma fold_init_node_vertices: "vertices (fold init_node xs c) = vertices c"
  by (induction xs arbitrary: c) (auto simp: init_node_def)

lemma path4_eval:
  "add_edges graph_init [(1, 2, ''m1''), (2, 3, ''m2''), (3, 4, ''m3'')] = Inr path4"
  by (simp add: Add_und_edge_def add_endpoint_def dict_get_def py_in_def py_setitem_def
      graph_init_def path4_def insert_commute)

lemma store_with_simps [simp]:
  "objects (store_with g) x = (graph_cls, g)" "next_id (store_with g) = 1"
  "DAG_top_order (store_with g) = []"
  by (simp_all add: store_with_def)

lemma one_edge_sets_run:
  "fst (Degeneracy ascending (store_with one_edge_sets) 0) = Inr 2"
  "objects (snd (Degeneracy ascending (store_with one_edge_sets) 0)) 1 =
     (graph_cls, \<lparr>adj_list = [(1, PySet {2}), (2, PySet {})], vertices = {1, 2},
        degrees = [(1, 1), (2, 0)]\<rparr>)"
  "objects (snd (Degeneracy ascending (store_with one_edge_sets) 0)) 2 =
     (DAG_cls, \<lparr>adj_list = [(1, PySet {2}), (2, PySet {})], vertices = {1, 2},
        degrees = [(1, 1), (2, 0)]\<rparr>)"
  "DAG_top_order (snd (Degeneracy ascending (store_with one_edge_sets) 0)) = [1, 2]"
  by code_simp+

lemma two_calls_run:
  "fst (Degeneracy ascending two_graphs 0) = Inr 3"
  "top_order_of (snd (Degeneracy ascending two_graphs 0)) 3 = Inr []"
  "fst (Degeneracy ascending (snd (Degeneracy ascending two_graphs 0)) 1) = Inl AttributeError"
  "top_order_of (snd (Degeneracy ascending (snd (Degeneracy ascending two_graphs 0)) 1)) 3
     = Inr [1]"
  by code_simp+

section \<open>Deg\_dist and Size on graphs built by Add\_und\_edge\<close>

lemma count_list_map_snd:
  assumes "distinct (map fst al)"
  shows "count_list (map snd al) x = card {k. map_of al k = Some x}"
  using assms
proof (induction al)
  case Nil
  then show ?case by simp
next
  case (Cons p al)
  obtain k v where p: "p = (k, v)" by (cases p)
  have kn: "map_of al k = None" using Cons.prems p by (simp add: map_of_eq_None_iff)
  have fin: "finite {k'. map_of al k' = Some x}"
  proof (rule finite_subset)
    show "{k'. map_of al k' = Some x} \<subseteq> fst ` set al" by (auto dest!: map_of_SomeD intro: rev_image_eqI)
    show "finite (fst ` set al)" by simp
  qed
  have kno: "k \<notin> {k'. map_of al k' = Some x}" using kn by simp
  have s: "{k'. map_of (p # al) k' = Some x} =
      (if v = x then insert k {k'. map_of al k' = Some x} else {k'. map_of al k' = Some x})"
    using kn p by auto
  have ih: "count_list (map snd al) x = card {k. map_of al k = Some x}"
    using Cons by simp
  show ?case unfolding s using ih fin kno p by simp
qed

lemma inv0_degrees_nonneg:
  assumes "inv0 g" "d \<in> set (map snd (degrees g))"
  shows "0 \<le> d"
proof -
  obtain v where v: "(v, d) \<in> set (degrees g)" using assms(2) by auto
  then have "v \<in> fst ` set (degrees g)" by force
  then have vV: "v \<in> vertices g" using assms(1) by (simp add: inv0_def)
  then obtain dd where "map_of (degrees g) v = Some (int (length dd))"
    and "map_of (adj_list g) v = Some (PyDict dd)"
    using assms(1) unfolding inv0_def by blast
  moreover have "map_of (degrees g) v = Some d"
    using v assms(1) by (simp add: inv0_def)
  ultimately show ?thesis by simp
qed

lemma inv0_degree_set:
  assumes "inv0 g"
  shows "{k. map_of (degrees g) k = Some x} = {v \<in> vertices g. dict_get (degrees g) v = Inr x}"
proof -
  have "\<And>k. map_of (degrees g) k = Some x \<Longrightarrow> k \<in> vertices g"
  proof -
    fix k assume "map_of (degrees g) k = Some x"
    then have "(k, x) \<in> set (degrees g)" by (rule map_of_SomeD)
    then have "k \<in> fst ` set (degrees g)" by force
    then show "k \<in> vertices g" using assms by (simp add: inv0_def)
  qed
  then show ?thesis by (auto simp: dict_get_def split: option.splits)
qed

lemma Deg_dist_inv0:
  assumes "inv0 g"
  shows "\<exists>dd. Deg_dist g = Inr dd \<and>
     (\<forall>i < length dd. dd ! i = card {v \<in> vertices g. dict_get (degrees g) v = Inr (int i)}) \<and>
     (vertices g \<noteq> {} \<longrightarrow> int (length dd) = max_degree g + 1) \<and>
     (vertices g = {} \<longrightarrow> dd = [])"
proof -
  let ?degs = "map snd (degrees g)"
  have nn: "\<not> (\<exists>x \<in> set ?degs. x < 0)" using inv0_degrees_nonneg[OF assms] by fastforce
  have dist: "distinct (map fst (degrees g))" using assms by (simp add: inv0_def)
  have cnt: "\<And>i. count_list ?degs (int i) = card {v \<in> vertices g. dict_get (degrees g) v = Inr (int i)}"
    using count_list_map_snd[OF dist] inv0_degree_set[OF assms] by simp
  have emp: "(?degs = []) = (vertices g = {})" using assms by (auto simp: inv0_def)
  show ?thesis
  proof (cases "?degs = []")
    case True
    then have "Deg_dist g = Inr []" by (simp add: Deg_dist_def bincount_def)
    then show ?thesis using True emp by simp
  next
    case False
    let ?m = "nat (Max (set ?degs))"
    let ?dd = "map (\<lambda>i. count_list ?degs (int i)) [0 ..< ?m + 1]"
    have d: "Deg_dist g = Inr ?dd" using False nn by (simp add: Deg_dist_def bincount_def Let_def)
    have "Max (set ?degs) \<in> set ?degs" using False by (intro Max_in) simp_all
    then have "0 \<le> Max (set ?degs)" using inv0_degrees_nonneg[OF assms] by blast
    then have l: "int (length ?dd) = max_degree g + 1" by (simp add: max_degree_def)
    have n: "\<forall>i < length ?dd. ?dd ! i = card {v \<in> vertices g. dict_get (degrees g) v = Inr (int i)}"
    proof (intro allI impI)
      fix i assume "i < length ?dd"
      then have "i < ?m + 1" by simp
      then have "?dd ! i = count_list ?degs (int i)"
        using nth_map_upt[of i "?m + 1" 0 "\<lambda>i. count_list ?degs (int i)"] by simp
      then show "?dd ! i = card {v \<in> vertices g. dict_get (degrees g) v = Inr (int i)}"
        using cnt by simp
    qed
    show ?thesis using d l n False emp by blast
  qed
qed

lemma two_edges_Deg_dist: "Deg_dist two_edges = Inr [0, 2, 1]"
  by code_simp

lemma truediv2_cases: "truediv2 a = Inl OverflowError \<or> (\<exists>q. truediv2 a = Inr q)"
  by (simp add: truediv2_def Let_def)

lemma Size_loop_not_KeyError:
  assumes "\<forall>v \<in> set xs. map_of (degrees g) v \<noteq> None"
  shows "Size_loop g xs acc \<noteq> Inl KeyError"
  using assms
proof (induction xs arbitrary: acc)
  case Nil
  then show ?case by (cases acc) simp
next
  case (Cons node rest)
  obtain m w where acc: "acc = (m, w)" by (cases acc)
  obtain deg where deg: "map_of (degrees g) node = Some deg" using Cons.prems by auto
  have rest: "\<forall>v \<in> set rest. map_of (degrees g) v \<noteq> None" using Cons.prems by simp
  show ?case
  proof (cases "truediv2 (deg * (deg - 1))")
    case (Inl e)
    then have "e = OverflowError" using truediv2_cases[of "deg * (deg - 1)"] by auto
    then show ?thesis using Inl deg acc by (simp add: dict_get_def)
  next
    case (Inr q)
    then show ?thesis using deg acc Cons.IH[OF rest] by (simp add: dict_get_def)
  qed
qed

lemma Size_not_KeyError:
  assumes "inv0 g" "order_ok sch"
  shows "Size sch g \<noteq> Inl KeyError"
proof -
  have fin: "finite (vertices g)" using assms(1) by (simp add: inv0_def)
  have xs: "set (iter_order sch (vertices g)) = vertices g"
    using assms(2) fin by (simp add: order_ok_def)
  have "\<forall>v \<in> set (iter_order sch (vertices g)). map_of (degrees g) v \<noteq> None"
  proof
    fix v assume "v \<in> set (iter_order sch (vertices g))"
    then have "v \<in> vertices g" using xs by simp
    then obtain d where "map_of (degrees g) v = Some (int (length d))"
      and "map_of (adj_list g) v = Some (PyDict d)"
      using assms(1) unfolding inv0_def by blast
    then show "map_of (degrees g) v \<noteq> None" by simp
  qed
  then have "Size_loop g (iter_order sch (vertices g)) (0, PyInt 0) \<noteq> Inl KeyError"
    by (rule Size_loop_not_KeyError)
  then show ?thesis
    by (cases "Size_loop g (iter_order sch (vertices g)) (0, PyInt 0)")
       (auto simp: Size_def Let_def)
qed

section \<open>The claims\<close>

text \<open>
  C7. After any sequence of \<^verbatim>\<open>Add_und_edge\<close> calls starting from an empty graph the
  sequence completes, and for every vertex \<open>v\<close> the stored degree \<^verbatim>\<open>degrees[v]\<close> equals the
  number of neighbours \<^verbatim>\<open>len(adj_list[v])\<close>.
\<close>

theorem degree_equals_neighbour_count:
  "\<exists>g. add_edges graph_init es = Inr g \<and>
     (\<forall>v \<in> vertices g. \<exists>c. dict_get (adj_list g) v = Inr c \<and>
        dict_get (degrees g) v = Inr (int (py_len c)))"
proof -
  obtain g where g: "add_edges graph_init es = Inr g" "graph_inv g"
    using add_edges_inv[OF graph_init_inv, of es] by blast
  then have i: "inv0 g" by (simp add: graph_inv_def)
  have "\<forall>v \<in> vertices g. \<exists>c. dict_get (adj_list g) v = Inr c \<and>
        dict_get (degrees g) v = Inr (int (py_len c))"
  proof
    fix v assume "v \<in> vertices g"
    with i show "\<exists>c. dict_get (adj_list g) v = Inr c \<and>
        dict_get (degrees g) v = Inr (int (py_len c))" by (rule inv0_degree_len)
  qed
  with g(1) show ?thesis by (intro exI[of _ g] conjI)
qed

theorem degree_equals_neighbour_count_witness:
  "add_edges graph_init [(1, 2, ''m1''), (1, 3, ''m2'')] = Inr two_edges \<and>
   1 \<in> vertices two_edges \<and>
   (\<exists>c. dict_get (adj_list two_edges) 1 = Inr c \<and>
        dict_get (degrees two_edges) 1 = Inr (int (py_len c))) \<and>
   dict_get (degrees two_edges) 1 = Inr 2"
proof -
  obtain g where g: "add_edges graph_init [(1::int, 2, ''m1''), (1, 3, ''m2'')] = Inr g"
    "\<forall>v \<in> vertices g. \<exists>c. dict_get (adj_list g) v = Inr c \<and>
        dict_get (degrees g) v = Inr (int (py_len c))"
    using degree_equals_neighbour_count [of "[(1::int, 2, ''m1''), (1, 3, ''m2'')]"] by blast
  have e: "g = two_edges" using g(1) unfolding two_edges_eval by simp
  have m: "1 \<in> vertices two_edges" by (simp add: two_edges_def)
  have d: "dict_get (degrees two_edges) 1 = Inr 2" by (simp add: two_edges_def dict_get_def)
  show ?thesis using g(2) m d two_edges_eval unfolding e by blast
qed

text \<open>
  C8. In a graph built by \<^verbatim>\<open>Add_und_edge\<close> calls, inserting an edge that is already
  present (in either orientation, with any label) returns the graph unchanged: the
  stored labels at both endpoints and both degrees stay as they were. Inserting a
  self-loop returns any graph unchanged.
\<close>

theorem reinsert_and_self_loop_are_noops:
  "(add_edges graph_init es = Inr g \<longrightarrow> isEdge g u v = Inr 1 \<longrightarrow>
      Add_und_edge g u v l' = Inr g \<and> Add_und_edge g v u l' = Inr g) \<and>
   Add_und_edge h w w l = Inr h"
proof (intro conjI impI)
  assume b: "add_edges graph_init es = Inr g" and e: "isEdge g u v = Inr 1"
  have i: "graph_inv g" using b by (rule built_inv)
  have uv: "v \<in> fst ` set (nbrs_of g u)"
    using e isEdge_inv[OF i, of u v] by (simp split: if_splits)
  then have vu: "u \<in> fst ` set (nbrs_of g v)"
    using i nbrs_keys_symmetric[of g u v] by (simp add: graph_inv_def)
  show "Add_und_edge g u v l' = Inr g" using i uv by (rule Add_und_edge_present)
  show "Add_und_edge g v u l' = Inr g" using i vu by (rule Add_und_edge_present)
next
  show "Add_und_edge h w w l = Inr h" by (simp add: Add_und_edge_def)
qed

theorem reinsert_and_self_loop_are_noops_witness:
  "add_edges graph_init [(1, 2, ''m1'')] = Inr one_edge \<and> isEdge one_edge 1 2 = Inr 1 \<and>
   Add_und_edge one_edge 1 2 ''m2'' = Inr one_edge \<and>
   Add_und_edge one_edge 2 1 ''m2'' = Inr one_edge \<and>
   dict_get (adj_list one_edge) 1 = Inr (PyDict [(2, ''m1'')]) \<and>
   dict_get (adj_list one_edge) 2 = Inr (PyDict [(1, ''m1'')]) \<and>
   Add_und_edge one_edge 1 1 ''m2'' = Inr one_edge"
  using reinsert_and_self_loop_are_noops
    [of "[(1, 2, ''m1'')]" one_edge 1 2 "''m2''" one_edge 1 "''m2''"]
  unfolding one_edge_eval one_edge_isEdge by (simp add: one_edge_def dict_get_def)

text \<open>
  C1. What \<^verbatim>\<open>Degeneracy\<close> does on a graph built by \<^verbatim>\<open>Add_und_edge\<close> calls, for every
  admissible set order. On the empty graph it returns a new \<^verbatim>\<open>DAG\<close> with no vertices,
  no adjacency and an empty topological order. On every other such graph it raises
  \<^verbatim>\<open>AttributeError\<close>: every vertex has a neighbour, the neighbourhoods are dicts, and
  line 232 calls the set method \<^verbatim>\<open>remove\<close> on the neighbourhood of the first neighbour
  visited. So the call does not complete on any non-empty graph.
\<close>

theorem Degeneracy_raises_unless_graph_empty:
  assumes "order_ok sch" "add_edges graph_init es = Inr g" "objects st self = (graph_cls, g)"
  shows "(vertices g = {} \<longrightarrow>
            fst (Degeneracy sch st self) = Inr (Suc (next_id st)) \<and>
            objects (snd (Degeneracy sch st self)) (Suc (next_id st)) = (DAG_cls, graph_init) \<and>
            top_order_of (snd (Degeneracy sch st self)) (Suc (next_id st)) = Inr []) \<and>
         (vertices g \<noteq> {} \<longrightarrow> fst (Degeneracy sch st self) = Inl AttributeError)"
proof -
  have empty: "fst (Degeneracy sch st self) = Inr (Suc (next_id st)) \<and>
            objects (snd (Degeneracy sch st self)) (Suc (next_id st)) = (DAG_cls, graph_init) \<and>
            top_order_of (snd (Degeneracy sch st self)) (Suc (next_id st)) = Inr []"
    if e: "vertices g = {}"
  proof -
    have "vertices (snd (objects st self)) = {}" using e assms(3) by simp
    then show ?thesis using assms(1) by (rule Degeneracy_store_empty)
  qed
  have nonempty: "fst (Degeneracy sch st self) = Inl AttributeError" if ne: "vertices g \<noteq> {}"
  proof -
    have i: "graph_inv (snd (objects st self))" using assms(2,3) built_inv by simp
    have n: "vertices (snd (objects st self)) \<noteq> {}" using ne assms(3) by simp
    from Degeneracy_store_raises[OF i n assms(1)] show ?thesis by simp
  qed
  show ?thesis using empty nonempty by blast
qed

theorem Degeneracy_raises_unless_graph_empty_witness:
  "order_ok (ascending :: int set_order) \<and>
   add_edges graph_init [(1, 2, ''m1'')] = Inr one_edge \<and>
   objects (store_with one_edge) 0 = (graph_cls, one_edge) \<and>
   vertices one_edge \<noteq> {} \<and>
   fst (Degeneracy ascending (store_with one_edge) 0) = Inl AttributeError"
proof -
  have v: "vertices one_edge \<noteq> {}" by (simp add: one_edge_def)
  have o: "objects (store_with one_edge) 0 = (graph_cls, one_edge)" by simp
  have r: "fst (Degeneracy ascending (store_with one_edge) 0) = Inl AttributeError"
    using Degeneracy_raises_unless_graph_empty [OF order_ok_ascending one_edge_eval o] v
    by blast
  show ?thesis by (intro conjI order_ok_ascending one_edge_eval o v r)
qed

text \<open>
  C2. On the path 1 - 2 - 3 - 4 \<^verbatim>\<open>Degeneracy\<close> raises \<^verbatim>\<open>AttributeError\<close> for every
  admissible set order and returns no \<^verbatim>\<open>DAG\<close>; the class attribute \<^verbatim>\<open>DAG.top_order\<close>
  is left with one vertex, not a permutation of the four.
\<close>

theorem Degeneracy_path_yields_no_order:
  assumes "order_ok sch"
  shows "add_edges graph_init [(1, 2, ''m1''), (2, 3, ''m2''), (3, 4, ''m3'')] = Inr path4 \<and>
         fst (Degeneracy sch (store_with path4) 0) = Inl AttributeError \<and>
         length (DAG_top_order (snd (Degeneracy sch (store_with path4) 0))) = 1"
proof -
  have i: "graph_inv (snd (objects (store_with path4) 0))"
    using built_inv[OF path4_eval] by simp
  have n: "vertices (snd (objects (store_with path4) 0)) \<noteq> {}" by (simp add: path4_def)
  from Degeneracy_store_raises[OF i n assms]
  have "fst (Degeneracy sch (store_with path4) 0) = Inl AttributeError \<and>
         length (DAG_top_order (snd (Degeneracy sch (store_with path4) 0))) = 1" by auto
  then show ?thesis using path4_eval by blast
qed

theorem Degeneracy_path_yields_no_order_witness:
  "order_ok (ascending :: int set_order) \<and>
   fst (Degeneracy ascending (store_with path4) 0) = Inl AttributeError \<and>
   length (DAG_top_order (snd (Degeneracy ascending (store_with path4) 0))) = 1"
  using Degeneracy_path_yields_no_order [OF order_ok_ascending] order_ok_ascending by blast

text \<open>
  C3. On the graph with the single edge \<open>(x, y)\<close> \<^verbatim>\<open>Degeneracy\<close> raises
  \<^verbatim>\<open>AttributeError\<close> for every admissible set order, before line 235 records a
  directed edge: in the \<^verbatim>\<open>DAG\<close> object under construction the successor sets of \<open>x\<close>
  and of \<open>y\<close> are both empty, so neither \<open>x \<rightarrow> y\<close> nor \<open>y \<rightarrow> x\<close> is present.
\<close>

theorem Degeneracy_single_edge_yields_no_direction:
  assumes "x \<noteq> y" "order_ok sch" "add_edges graph_init [(x, y, l)] = Inr g"
    "objects st self = (graph_cls, g)"
  shows "fst (Degeneracy sch st self) = Inl AttributeError \<and>
         dict_get (adj_list (snd (objects (snd (Degeneracy sch st self)) (Suc (next_id st))))) x
           = Inr (PySet {}) \<and>
         dict_get (adj_list (snd (objects (snd (Degeneracy sch st self)) (Suc (next_id st))))) y
           = Inr (PySet {})"
proof -
  have g: "g = \<lparr>adj_list = [(x, PyDict [(y, l)]), (y, PyDict [(x, l)])], vertices = {y, x},
                degrees = [(x, 1), (y, 1)]\<rparr>"
    using assms(1,3)
    by (simp add: Add_und_edge_def add_endpoint_def dict_get_def py_in_def py_setitem_def
        graph_init_def)
  have v: "vertices g = {x, y}" using g by auto
  have "graph_inv g" using assms(3) by (rule built_inv)
  then have i: "graph_inv (snd (objects st self))" using assms(4) by simp
  have n: "vertices (snd (objects st self)) \<noteq> {}" using v assms(4) by simp
  have xs: "set (iter_order sch (vertices g)) = {x, y}"
    using assms(2) v unfolding order_ok_def by (metis finite.emptyI finite.insertI)
  from Degeneracy_store_raises[OF i n assms(2)]
  show ?thesis using assms(4) xs by (simp add: dict_get_def fold_init_node_adj)
qed

theorem Degeneracy_single_edge_yields_no_direction_witness:
  "(1::int) \<noteq> 2 \<and> order_ok (ascending :: int set_order) \<and>
   add_edges graph_init [(1, 2, ''m1'')] = Inr one_edge \<and>
   objects (store_with one_edge) 0 = (graph_cls, one_edge) \<and>
   fst (Degeneracy ascending (store_with one_edge) 0) = Inl AttributeError \<and>
   dict_get (adj_list (snd (objects (snd (Degeneracy ascending (store_with one_edge) 0)) 2))) 1
     = Inr (PySet {}) \<and>
   dict_get (adj_list (snd (objects (snd (Degeneracy ascending (store_with one_edge) 0)) 2))) 2
     = Inr (PySet {})"
proof -
  have ne: "(1::int) \<noteq> 2" by simp
  have o: "objects (store_with one_edge) 0 = (graph_cls, one_edge)" by simp
  have two: "Suc (next_id (store_with one_edge)) = 2" by simp
  show ?thesis
    using Degeneracy_single_edge_yields_no_direction
      [OF ne order_ok_ascending one_edge_eval o] ne o order_ok_ascending one_edge_eval
    unfolding two by blast
qed

text \<open>
  C4. \<^verbatim>\<open>DAG\<close> instances do not own their topological order: \<^verbatim>\<open>DAG.__init__\<close> binds
  the attribute of the class (line 248), so constructing a second \<^verbatim>\<open>DAG\<close> empties the
  order read through the first, and an append through the second is read through
  the first. Through \<^verbatim>\<open>Degeneracy\<close>: the \<^verbatim>\<open>DAG\<close> returned for the empty graph has
  order \<open>[]\<close>, and after a later \<^verbatim>\<open>Degeneracy\<close> call on the single edge (which raises)
  the same \<^verbatim>\<open>DAG\<close> has order \<open>[1]\<close>.
\<close>

theorem DAG_instances_share_one_top_order:
  "(let (d1, s1) = DAG_init st;
        s2 = s1\<lparr>DAG_top_order := [x]\<rparr>;
        (d2, s3) = DAG_init s2;
        s4 = s3\<lparr>DAG_top_order := [y]\<rparr>
    in d1 \<noteq> d2 \<and>
       top_order_append s1 d1 x = Inr s2 \<and> top_order_of s2 d1 = Inr [x] \<and>
       top_order_of s3 d1 = Inr [] \<and>
       top_order_append s3 d2 y = Inr s4 \<and> top_order_of s4 d1 = Inr [y]) \<and>
   fst (Degeneracy ascending two_graphs 0) = Inr 3 \<and>
   top_order_of (snd (Degeneracy ascending two_graphs 0)) 3 = Inr [] \<and>
   fst (Degeneracy ascending (snd (Degeneracy ascending two_graphs 0)) 1) = Inl AttributeError \<and>
   top_order_of (snd (Degeneracy ascending (snd (Degeneracy ascending two_graphs 0)) 1)) 3
     = Inr [1]"
proof -
  have "let (d1, s1) = DAG_init st;
        s2 = s1\<lparr>DAG_top_order := [x]\<rparr>;
        (d2, s3) = DAG_init s2;
        s4 = s3\<lparr>DAG_top_order := [y]\<rparr>
    in d1 \<noteq> d2 \<and>
       top_order_append s1 d1 x = Inr s2 \<and> top_order_of s2 d1 = Inr [x] \<and>
       top_order_of s3 d1 = Inr [] \<and>
       top_order_append s3 d2 y = Inr s4 \<and> top_order_of s4 d1 = Inr [y]"
    by (simp add: DAG_init_def top_order_append_def top_order_of_def Let_def)
  then show ?thesis
    by (intro conjI two_calls_run(1) two_calls_run(2) two_calls_run(3) two_calls_run(4))
qed

text \<open>
  C6. \<^verbatim>\<open>Degeneracy\<close> changes no object that existed before the call, whether it
  returns or raises: in particular the caller's graph (vertices, adjacency with
  labels, degrees) is the same before and after, while the working copy is peeled.
\<close>

theorem Degeneracy_leaves_callers_objects_unchanged:
  assumes "x < next_id st"
  shows "objects (snd (Degeneracy sch st self)) x = objects st x"
proof -
  obtain r s where rs: "Degeneracy_run sch (snd (objects st self)) graph_init [] = (r, s)"
    by (cases "Degeneracy_run sch (snd (objects st self)) graph_init []")
  have a: "x \<noteq> next_id st" and b: "x \<noteq> Suc (next_id st)" using assms by simp_all
  show ?thesis
    using a b rs by (simp add: Degeneracy_def deepcopy_def DAG_init_def Let_def)
qed

theorem Degeneracy_leaves_callers_objects_unchanged_witness:
  "(0::nat) < next_id (store_with one_edge_sets) \<and>
   fst (Degeneracy ascending (store_with one_edge_sets) 0) = Inr 2 \<and>
   objects (snd (Degeneracy ascending (store_with one_edge_sets) 0)) 0 =
     (graph_cls, one_edge_sets) \<and>
   objects (snd (Degeneracy ascending (store_with one_edge_sets) 0)) 1 =
     (graph_cls, \<lparr>adj_list = [(1, PySet {2}), (2, PySet {})], vertices = {1, 2},
        degrees = [(1, 1), (2, 0)]\<rparr>)"
proof -
  have l: "(0::nat) < next_id (store_with one_edge_sets)" by simp
  have u: "objects (snd (Degeneracy ascending (store_with one_edge_sets) 0)) 0 =
     (graph_cls, one_edge_sets)"
    using Degeneracy_leaves_callers_objects_unchanged [OF l, of ascending 0] by simp
  show ?thesis by (intro conjI l u one_edge_sets_run(1) one_edge_sets_run(2))
qed

text \<open>
  C9. For every graph built by \<^verbatim>\<open>Add_und_edge\<close> calls \<^verbatim>\<open>Deg_dist\<close> returns a sequence
  whose entry \<open>i\<close> is the number of vertices of degree exactly \<open>i\<close>; when the graph has
  a vertex the sequence has length \<open>max_degree + 1\<close>, and for the empty graph, which
  has no degree, it is empty.
\<close>

theorem Deg_dist_counts_vertices_by_degree:
  assumes "add_edges graph_init es = Inr g"
  shows "\<exists>dd. Deg_dist g = Inr dd \<and>
     (\<forall>i < length dd. dd ! i = card {v \<in> vertices g. dict_get (degrees g) v = Inr (int i)}) \<and>
     (vertices g \<noteq> {} \<longrightarrow> int (length dd) = max_degree g + 1) \<and>
     (vertices g = {} \<longrightarrow> dd = [])"
proof -
  have "graph_inv g" using assms by (rule built_inv)
  then have "inv0 g" by (simp add: graph_inv_def)
  then show ?thesis by (rule Deg_dist_inv0)
qed

theorem Deg_dist_counts_vertices_by_degree_witness:
  "add_edges graph_init [(1, 2, ''m1''), (1, 3, ''m2'')] = Inr two_edges \<and>
   Deg_dist two_edges = Inr [0, 2, 1] \<and>
   vertices two_edges \<noteq> {} \<and>
   int (length [0, 2, 1 :: nat]) = max_degree two_edges + 1 \<and>
   (2 :: nat) < length [0, 2, 1 :: nat] \<and>
   [0, 2, 1] ! 2 = card {v \<in> vertices two_edges. dict_get (degrees two_edges) v = Inr (int 2)}"
proof -
  obtain dd where dd: "Deg_dist two_edges = Inr dd"
    "\<forall>i < length dd. dd ! i = card {v \<in> vertices two_edges. dict_get (degrees two_edges) v = Inr (int i)}"
    "vertices two_edges \<noteq> {} \<longrightarrow> int (length dd) = max_degree two_edges + 1"
    using Deg_dist_counts_vertices_by_degree [OF two_edges_eval] by blast
  have e: "dd = [0, 2, 1]" using dd(1) unfolding two_edges_Deg_dist by simp
  have v: "vertices two_edges \<noteq> {}" by (simp add: two_edges_def)
  have l: "(2 :: nat) < length [0, 2, 1 :: nat]" by simp
  have a: "int (length [0, 2, 1 :: nat]) = max_degree two_edges + 1"
    using dd(3) v unfolding e by blast
  have b: "[0, 2, 1] ! 2 = card {v \<in> vertices two_edges. dict_get (degrees two_edges) v = Inr (int 2)}"
    using dd(2) l unfolding e by blast
  show ?thesis by (intro conjI two_edges_eval two_edges_Deg_dist v a l b)
qed

text \<open>
  C10. After any sequence of \<^verbatim>\<open>Add_und_edge\<close> calls starting from an empty graph the
  set \<^verbatim>\<open>vertices\<close>, the keys of \<^verbatim>\<open>adj_list\<close> and the keys of \<^verbatim>\<open>degrees\<close> are equal,
  so \<^verbatim>\<open>adj_list[v]\<close> and \<^verbatim>\<open>degrees[v]\<close> succeed for every vertex, and no lookup made
  by \<^verbatim>\<open>isEdge\<close>, \<^verbatim>\<open>Size\<close>, \<^verbatim>\<open>Deg_dist\<close> or \<^verbatim>\<open>Degeneracy\<close> raises \<^verbatim>\<open>KeyError\<close>.
\<close>

theorem key_sets_agree_and_lookups_succeed:
  assumes "add_edges graph_init es = Inr g" "order_ok sch" "objects st self = (graph_cls, g)"
  shows "fst ` set (adj_list g) = vertices g \<and> fst ` set (degrees g) = vertices g \<and>
     (\<forall>v \<in> vertices g. (\<exists>c. dict_get (adj_list g) v = Inr c) \<and>
                          (\<exists>d. dict_get (degrees g) v = Inr d)) \<and>
     (\<forall>a b. isEdge g a b = Inr 0 \<or> isEdge g a b = Inr 1) \<and>
     Size sch g \<noteq> Inl KeyError \<and>
     (\<exists>dd. Deg_dist g = Inr dd) \<and>
     fst (Degeneracy sch st self) \<noteq> Inl KeyError"
proof -
  have gi: "graph_inv g" using assms(1) by (rule built_inv)
  then have i0: "inv0 g" by (simp add: graph_inv_def)
  have k1: "fst ` set (adj_list g) = vertices g" and k2: "fst ` set (degrees g) = vertices g"
    using i0 by (simp_all add: inv0_def)
  have lk: "\<forall>v \<in> vertices g. (\<exists>c. dict_get (adj_list g) v = Inr c) \<and>
                          (\<exists>d. dict_get (degrees g) v = Inr d)"
  proof
    fix v assume v: "v \<in> vertices g"
    obtain c where "dict_get (adj_list g) v = Inr c"
      "dict_get (degrees g) v = Inr (int (py_len c))"
      using inv0_degree_len[OF i0 v] by blast
    then show "(\<exists>c. dict_get (adj_list g) v = Inr c) \<and> (\<exists>d. dict_get (degrees g) v = Inr d)"
      by blast
  qed
  have ie: "\<forall>a b. isEdge g a b = Inr 0 \<or> isEdge g a b = Inr 1"
    using isEdge_inv[OF gi] by simp
  have sz: "Size sch g \<noteq> Inl KeyError" using i0 assms(2) by (rule Size_not_KeyError)
  have dd: "\<exists>dd. Deg_dist g = Inr dd" using Deg_dist_inv0[OF i0] by blast
  have dg: "fst (Degeneracy sch st self) \<noteq> Inl KeyError"
  proof (cases "vertices g = {}")
    case True
    then have "vertices (snd (objects st self)) = {}" using assms(3) by simp
    from Degeneracy_store_empty[OF this assms(2)] show ?thesis by simp
  next
    case False
    have i: "graph_inv (snd (objects st self))" using gi assms(3) by simp
    have n: "vertices (snd (objects st self)) \<noteq> {}" using False assms(3) by simp
    from Degeneracy_store_raises[OF i n assms(2)] show ?thesis by simp
  qed
  show ?thesis by (intro conjI k1 k2 lk ie sz dd dg)
qed


theorem key_sets_agree_and_lookups_succeed_witness:
  "add_edges graph_init [(1, 2, ''m1'')] = Inr one_edge \<and>
   order_ok (ascending :: int set_order) \<and>
   objects (store_with one_edge) 0 = (graph_cls, one_edge) \<and>
   fst ` set (adj_list one_edge) = vertices one_edge \<and>
   fst ` set (degrees one_edge) = vertices one_edge \<and>
   1 \<in> vertices one_edge \<and>
   (\<exists>c. dict_get (adj_list one_edge) 1 = Inr c) \<and>
   (\<exists>d. dict_get (degrees one_edge) 1 = Inr d) \<and>
   isEdge one_edge 1 2 = Inr 1 \<and>
   Size ascending one_edge \<noteq> Inl KeyError \<and>
   fst (Degeneracy ascending (store_with one_edge) 0) \<noteq> Inl KeyError"
proof -
  have o: "objects (store_with one_edge) 0 = (graph_cls, one_edge)" by simp
  have m: "1 \<in> vertices one_edge" by (simp add: one_edge_def)
  note t = key_sets_agree_and_lookups_succeed [OF one_edge_eval order_ok_ascending o]
  have k1: "fst ` set (adj_list one_edge) = vertices one_edge" using t by blast
  have k2: "fst ` set (degrees one_edge) = vertices one_edge" using t by blast
  have l1: "\<exists>c. dict_get (adj_list one_edge) 1 = Inr c" using t m by blast
  have l2: "\<exists>d. dict_get (degrees one_edge) 1 = Inr d" using t m by blast
  have sz: "Size ascending one_edge \<noteq> Inl KeyError" using t by blast
  have dg: "fst (Degeneracy ascending (store_with one_edge) 0) \<noteq> Inl KeyError" using t by blast
  show ?thesis
    by (intro conjI one_edge_eval order_ok_ascending o k1 k2 m l1 l2 one_edge_isEdge sz dg)
qed

end
